theory Spec2Isabelle
  imports Main "HOL-Library.Word"
begin

unbundle bit_operations_syntax

section \<open>Python values\<close>

text \<open>
  The program is \<^verbatim>\<open>vlesslinker.py\<close>. A Python \<^verbatim>\<open>str\<close> is modelled as a \<open>string\<close>: one
  \<open>char\<close> per code point, so the model covers the code points below 256; the character
  classes below (\<open>isspace\<close>, \<open>lower\<close>, \<open>isprintable\<close>) are CPython 3.11's on that range.
  A \<^verbatim>\<open>bytes\<close> object is a list of 8-bit words.

  A value produced by \<^verbatim>\<open>json.loads\<close> is \<^verbatim>\<open>None\<close>, a \<^verbatim>\<open>bool\<close>, an \<^verbatim>\<open>int\<close>, a \<^verbatim>\<open>float\<close>, a
  \<^verbatim>\<open>str\<close>, a \<^verbatim>\<open>list\<close> or a \<^verbatim>\<open>dict\<close> with \<^verbatim>\<open>str\<close> keys. A float is carried as its
  \<^verbatim>\<open>repr\<close> (the only operations the program applies to one are \<^verbatim>\<open>str\<close> and \<^verbatim>\<open>bool\<close>). A
  dict is the list of its items in insertion order; a key is looked up with \<open>map_of\<close>.
\<close>

type_synonym byte = "8 word"

datatype json =
    JNull
  | JBool bool
  | JInt int
  | JFloat string
  | JString string
  | JArray "json list"
  | JObject "(string \<times> json) list"

text \<open>
  The exceptions the program meets. \<open>ValueError\<close> carries the part of its message
  that the source fixes; \<open>JSONDecodeError\<close> and \<open>UnicodeDecodeError\<close> are the subclasses of
  \<open>ValueError\<close> that \<^verbatim>\<open>json.loads\<close> and \<^verbatim>\<open>bytes.decode\<close> raise; \<open>ZlibError\<close> is \<^verbatim>\<open>zlib.error\<close>;
  \<open>RecursionError\<close> is what \<^verbatim>\<open>json.loads\<close> raises for a text nested too deep.
  \<open>SystemExit e\<close> is what \<^verbatim>\<open>sys.exit(f"Error generating VLESS URL: {e}")\<close> raises: it is a
  \<^verbatim>\<open>BaseException\<close> and no \<^verbatim>\<open>Exception\<close>.
\<close>

datatype py_exception =
    KeyError json
  | IndexError
  | TypeError
  | AttributeError
  | EOFError
  | ValueError string
  | JSONDecodeError
  | UnicodeDecodeError
  | ZlibError
  | RecursionError
  | SystemExit py_exception

fun is_Exception :: "py_exception \<Rightarrow> bool" where
  "is_Exception (SystemExit _) = False"
| "is_Exception _ = True"

text \<open>What \<^verbatim>\<open>except ValueError\<close> catches: the class and its subclasses.\<close>

fun is_ValueError :: "py_exception \<Rightarrow> bool" where
  "is_ValueError (ValueError _) = True"
| "is_ValueError JSONDecodeError = True"
| "is_ValueError UnicodeDecodeError = True"
| "is_ValueError _ = False"

definition bindE :: "py_exception + 'a \<Rightarrow> ('a \<Rightarrow> py_exception + 'b) \<Rightarrow> py_exception + 'b" where
  "bindE m f = (case m of Inl e \<Rightarrow> Inl e | Inr v \<Rightarrow> f v)"

subsection \<open>Subscripts, \<^verbatim>\<open>dict.get\<close>, truth values\<close>

text \<open>\<^verbatim>\<open>obj["k"]\<close> for a string literal \<^verbatim>\<open>"k"\<close>.\<close>

fun getitem_key :: "json \<Rightarrow> string \<Rightarrow> py_exception + json" where
  "getitem_key (JObject kvs) k =
     (case map_of kvs k of Some v \<Rightarrow> Inr v | None \<Rightarrow> Inl (KeyError (JString k)))"
| "getitem_key _ k = Inl TypeError"

text \<open>\<^verbatim>\<open>obj[0]\<close>: the first element of a list, the first character of a string.\<close>

fun getitem_0 :: "json \<Rightarrow> py_exception + json" where
  "getitem_0 (JArray xs) = (case xs of [] \<Rightarrow> Inl IndexError | x # _ \<Rightarrow> Inr x)"
| "getitem_0 (JString s) = (case s of [] \<Rightarrow> Inl IndexError | c # _ \<Rightarrow> Inr (JString [c]))"
| "getitem_0 (JObject kvs) = Inl (KeyError (JInt 0))"
| "getitem_0 _ = Inl TypeError"

text \<open>\<^verbatim>\<open>obj.get("k", default)\<close>: only a dict has the method.\<close>

fun dict_get :: "json \<Rightarrow> string \<Rightarrow> json \<Rightarrow> py_exception + json" where
  "dict_get (JObject kvs) k d = (case map_of kvs k of Some v \<Rightarrow> Inr v | None \<Rightarrow> Inr d)"
| "dict_get _ k d = Inl AttributeError"

text \<open>\<^verbatim>\<open>bool(v)\<close>, the test of \<^verbatim>\<open>if v:\<close>.\<close>

fun py_bool :: "json \<Rightarrow> bool" where
  "py_bool JNull = False"
| "py_bool (JBool b) = b"
| "py_bool (JInt i) = (i \<noteq> 0)"
| "py_bool (JFloat r) = (r \<noteq> ''0.0'' \<and> r \<noteq> ''-0.0'')"
| "py_bool (JString s) = (s \<noteq> [])"
| "py_bool (JArray xs) = (xs \<noteq> [])"
| "py_bool (JObject kvs) = (kvs \<noteq> [])"

subsection \<open>\<^verbatim>\<open>str\<close> and \<^verbatim>\<open>repr\<close>\<close>

definition digit_char :: "nat \<Rightarrow> char" where
  "digit_char d = ''0123456789'' ! d"

fun str_nat :: "nat \<Rightarrow> string" where
  "str_nat n = (if n < 10 then [digit_char n] else str_nat (n div 10) @ [digit_char (n mod 10)])"

definition str_int :: "int \<Rightarrow> string" where
  "str_int i = (if i < 0 then CHR ''-'' # str_nat (nat (- i)) else str_nat (nat i))"

definition hex_char :: "nat \<Rightarrow> char" where
  "hex_char d = ''0123456789abcdef'' ! d"

definition isprintable :: "char \<Rightarrow> bool" where
  "isprintable c = (let n = (of_char c :: nat) in
     (32 \<le> n \<and> n < 127) \<or> (161 \<le> n \<and> n \<noteq> 173))"

text \<open>The escapes of \<^verbatim>\<open>repr\<close> of a string, for the quote character \<open>q\<close> it has chosen.\<close>

definition repr_char :: "char \<Rightarrow> char \<Rightarrow> string" where
  "repr_char q c =
     (if c = q \<or> c = CHR 0x5C then [CHR 0x5C, c]
      else if c = CHR 0x09 then [CHR 0x5C, CHR ''t'']
      else if c = CHR 0x0A then [CHR 0x5C, CHR ''n'']
      else if c = CHR 0x0D then [CHR 0x5C, CHR ''r'']
      else if isprintable c then [c]
      else [CHR 0x5C, CHR ''x'', hex_char (of_char c div 16), hex_char (of_char c mod 16)])"

definition repr_str :: "string \<Rightarrow> string" where
  "repr_str s =
     (let q = (if CHR 0x27 \<in> set s \<and> CHR 0x22 \<notin> set s then CHR 0x22 else CHR 0x27)
      in [q] @ concat (map (repr_char q) s) @ [q])"

fun join :: "string \<Rightarrow> string list \<Rightarrow> string" where
  "join sep [] = []"
| "join sep [x] = x"
| "join sep (x # y # ys) = x @ sep @ join sep (y # ys)"

fun py_repr :: "json \<Rightarrow> string" where
  "py_repr JNull = ''None''"
| "py_repr (JBool b) = (if b then ''True'' else ''False'')"
| "py_repr (JInt i) = str_int i"
| "py_repr (JFloat r) = r"
| "py_repr (JString s) = repr_str s"
| "py_repr (JArray xs) = ''['' @ join '', '' (map py_repr xs) @ '']''"
| "py_repr (JObject kvs) =
     ''{'' @ join '', '' (map (\<lambda>kv. repr_str (fst kv) @ '': '' @ py_repr (snd kv)) kvs) @ ''}''"

text \<open>\<^verbatim>\<open>str(v)\<close>, which is what \<^verbatim>\<open>f"{v}"\<close> formats.\<close>

fun py_str :: "json \<Rightarrow> string" where
  "py_str (JString s) = s"
| "py_str v = py_repr v"

definition isspace :: "char \<Rightarrow> bool" where
  "isspace c = (let n = (of_char c :: nat) in
     (9 \<le> n \<and> n \<le> 13) \<or> (28 \<le> n \<and> n \<le> 32) \<or> n = 133 \<or> n = 160)"

definition strip :: "string \<Rightarrow> string" where
  "strip s = rev (dropWhile isspace (rev (dropWhile isspace s)))"

section \<open>The console\<close>

text \<open>
  \<^verbatim>\<open>input(prompt)\<close> writes the prompt and then meets one of three events: a line the user
  typed, Ctrl-C (\<^verbatim>\<open>KeyboardInterrupt\<close>) or the end of the input (\<^verbatim>\<open>EOFError\<close>). A
  function that uses the console takes the event it will meet and returns what it wrote
  to standard output beside its result.
\<close>

datatype console_event = Line string | CtrlC | EndOfInput

definition get_vless_name :: "json \<Rightarrow> console_event \<Rightarrow> string list \<times> (py_exception + json)" where
  "get_vless_name address ev =
     (let prompt = ''Enter VLESS name (leave empty to use '' @ [CHR 0x27] @ py_str address
                     @ [CHR 0x27] @ ''): ''
      in case ev of
           Line l \<Rightarrow> (let name = strip l
                      in ([prompt], Inr (if name \<noteq> [] then JString name else address)))
         | CtrlC \<Rightarrow>
             ([prompt,
               [CHR 0x0A, CHR 0x0A] @ ''Program interrupted by user. Using server address as name.''
                 @ [CHR 0x0A]],
              Inr address)
         | EndOfInput \<Rightarrow> ([prompt], Inl EOFError))"

section \<open>\<^verbatim>\<open>to_vless_url\<close>\<close>

text \<open>\<^verbatim>\<open>if v: url += f"&k={v}"\<close>\<close>

definition query_param :: "string \<Rightarrow> json \<Rightarrow> string" where
  "query_param k v = (if py_bool v then ''&'' @ k @ ''='' @ py_str v else [])"

text \<open>
  Lines 138 to 174: the reads of the configuration, in the order of the source (the first
  one that fails decides the exception), and the URL up to its query. It returns the
  address beside the URL, for the prompt.
\<close>

definition vless_url_query :: "json \<Rightarrow> py_exception + (json \<times> string)" where
  "vless_url_query data =
     bindE (bindE (getitem_key data ''outbounds'') getitem_0) (\<lambda>out.
     bindE (bindE (bindE (getitem_key out ''settings'') (\<lambda>s. getitem_key s ''vnext'')) getitem_0) (\<lambda>vnext.
     bindE (bindE (getitem_key vnext ''users'') getitem_0) (\<lambda>user.
     bindE (getitem_key out ''streamSettings'') (\<lambda>stream.
     bindE (getitem_key user ''id'') (\<lambda>uuid.
     bindE (getitem_key vnext ''address'') (\<lambda>address.
     bindE (getitem_key vnext ''port'') (\<lambda>port.
     bindE (dict_get user ''flow'' (JString [])) (\<lambda>flow.
     bindE (dict_get stream ''network'' (JString ''tcp'')) (\<lambda>network.
     bindE (dict_get stream ''security'' (JString ''none'')) (\<lambda>security.
     bindE (dict_get stream ''realitySettings'' (JObject [])) (\<lambda>rs.
     bindE (dict_get rs ''serverName'' (JString [])) (\<lambda>server_name.
     bindE (dict_get rs ''fingerprint'' (JString [])) (\<lambda>fingerprint.
     bindE (dict_get rs ''publicKey'' (JString [])) (\<lambda>public_key.
     bindE (dict_get rs ''shortId'' (JString [])) (\<lambda>short_id.
     bindE (dict_get rs ''spiderX'' (JString [])) (\<lambda>spiderx.
       Inr (address,
            ''vless://'' @ py_str uuid @ ''@'' @ py_str address @ '':'' @ py_str port
              @ ''?encryption=none''
              @ query_param ''flow'' flow
              @ query_param ''security'' security
              @ query_param ''sni'' server_name
              @ query_param ''fp'' fingerprint
              @ query_param ''pbk'' public_key
              @ query_param ''sid'' short_id
              @ query_param ''spx'' spiderx
              @ query_param ''type'' network)))))))))))))))))"

text \<open>
  The whole function: the \<^verbatim>\<open>try\<close> block, then \<^verbatim>\<open>get_vless_name\<close> and the fragment; the
  handler \<^verbatim>\<open>except Exception as e: sys.exit(...)\<close> turns every exception of the block
  into \<open>SystemExit\<close>. The first component is what was written to standard output.
\<close>

definition to_vless_url :: "json \<Rightarrow> console_event \<Rightarrow> string list \<times> (py_exception + string)" where
  "to_vless_url data ev =
     (case vless_url_query data of
        Inl e \<Rightarrow> ([], Inl (SystemExit e))
      | Inr (address, url) \<Rightarrow>
          (case get_vless_name address ev of
             (out, Inl e) \<Rightarrow> (out, Inl (SystemExit e))
           | (out, Inr custom_name) \<Rightarrow> (out, Inr (url @ ''#'' @ py_str custom_name))))"

text \<open>
  What the interactive loop of \<^verbatim>\<open>main\<close> does with an exception of a conversion (lines
  207 to 262): its handlers end with \<^verbatim>\<open>except Exception\<close>, print the error and go on with
  the loop; a \<open>SystemExit\<close> passes them and ends the process.
\<close>

datatype loop_outcome = Continues | ProcessExits

definition main_handles :: "py_exception \<Rightarrow> loop_outcome" where
  "main_handles e = (if is_Exception e then Continues else ProcessExits)"

section \<open>Paths in a JSON value\<close>

text \<open>
  The value at a path of keys and indices, by the structure of the value alone: a key
  selects in a dict, an index in a list. The claims speak of paths such as
  \<^verbatim>\<open>outbounds[0].settings.vnext[0]\<close>.
\<close>

datatype step = Key string | Idx nat

fun json_at :: "step list \<Rightarrow> json \<Rightarrow> json option" where
  "json_at [] v = Some v"
| "json_at (Key k # p) (JObject kvs) = (case map_of kvs k of Some v \<Rightarrow> json_at p v | None \<Rightarrow> None)"
| "json_at (Idx i # p) (JArray xs) = (if i < length xs then json_at p (xs ! i) else None)"
| "json_at _ _ = None"

text \<open>The value at a path, or a default where the path leads nowhere.\<close>

definition json_at_or :: "step list \<Rightarrow> json \<Rightarrow> json \<Rightarrow> json" where
  "json_at_or p d v = (case json_at p v of Some x \<Rightarrow> x | None \<Rightarrow> d)"

text \<open>The paths \<^verbatim>\<open>to_vless_url\<close> reads, and the query parameters in the order it writes them:
  the name of each, the path of its value and the default of the source.\<close>

definition vnext_path :: "step list" where
  "vnext_path = [Key ''outbounds'', Idx 0, Key ''settings'', Key ''vnext'', Idx 0]"

definition user_path :: "step list" where
  "user_path = vnext_path @ [Key ''users'', Idx 0]"

definition stream_path :: "step list" where
  "stream_path = [Key ''outbounds'', Idx 0, Key ''streamSettings'']"

definition vless_params :: "(string \<times> step list \<times> json) list" where
  "vless_params =
     [(''flow'', user_path @ [Key ''flow''], JString []),
      (''security'', stream_path @ [Key ''security''], JString ''none''),
      (''sni'', stream_path @ [Key ''realitySettings'', Key ''serverName''], JString []),
      (''fp'', stream_path @ [Key ''realitySettings'', Key ''fingerprint''], JString []),
      (''pbk'', stream_path @ [Key ''realitySettings'', Key ''publicKey''], JString []),
      (''sid'', stream_path @ [Key ''realitySettings'', Key ''shortId''], JString []),
      (''spx'', stream_path @ [Key ''realitySettings'', Key ''spiderX''], JString []),
      (''type'', stream_path @ [Key ''network''], JString ''tcp'')]"

text \<open>The display name: the stripped line the user typed, or the address when the line is
  blank or the user pressed Ctrl-C.\<close>

definition display_name :: "json \<Rightarrow> console_event \<Rightarrow> string" where
  "display_name address ev =
     (case ev of Line l \<Rightarrow> (if strip l = [] then py_str address else strip l)
      | _ \<Rightarrow> py_str address)"

text \<open>A configuration for the examples: one outbound, with the fields
  \<^verbatim>\<open>to_vless_url\<close> reads.\<close>

definition example_config :: json where
  "example_config =
     JObject [(''outbounds'', JArray [JObject
       [(''protocol'', JString ''vless''),
        (''settings'', JObject [(''vnext'', JArray [JObject
           [(''address'', JString ''example.com''),
            (''port'', JInt 443),
            (''users'', JArray [JObject
               [(''id'', JString ''b831381d''), (''encryption'', JString ''none''),
                (''flow'', JString [])]])]])]),
        (''streamSettings'', JObject
           [(''network'', JString ''ws''),
            (''security'', JString ''tls''),
            (''realitySettings'', JObject [(''serverName'', JString ''sni.example'')])])]])]"

section \<open>The library\<close>

text \<open>
  The program calls \<^verbatim>\<open>base64\<close>, \<^verbatim>\<open>zlib\<close>, \<^verbatim>\<open>json\<close> and \<^verbatim>\<open>urllib.parse\<close>. What those do
  with the program's data is modelled below from CPython 3.11; the parts that are
  algorithms of their own are parameters of the model, the fields of \<open>pylib\<close>, and a
  theorem that mentions a library \<open>L\<close> holds for every such library:
  \<^item> \<open>raw_inflate\<close>: inflating the DEFLATE stream (RFC 1951) at the head of the bytes,
    with the output and the bytes left after the stream, or \<open>None\<close> for a stream that
    is invalid or cut short;
  \<^item> \<open>json_loads\<close>: \<^verbatim>\<open>json.loads\<close> of a string, the value or the exception it raises
    (\<^verbatim>\<open>JSONDecodeError\<close> for a text that is no JSON, a \<^verbatim>\<open>ValueError\<close> for an integer of more
    digits than \<^verbatim>\<open>int\<close> converts, \<^verbatim>\<open>RecursionError\<close> for a nesting too deep);
  \<^item> \<open>utf8_strict\<close> and \<open>utf8_replace\<close>: \<^verbatim>\<open>bytes.decode('utf-8')\<close>, strict (\<open>None\<close> for
    \<^verbatim>\<open>UnicodeDecodeError\<close>) and with \<^verbatim>\<open>errors='replace'\<close>, for bytes that are not all ASCII;
  \<^item> \<open>ip_address\<close>: \<^verbatim>\<open>ipaddress.ip_address\<close> of a string, the kind of address it reads or
    \<open>None\<close> for its \<^verbatim>\<open>ValueError\<close>.
\<close>

datatype ip_version = IPv4 | IPv6

record pylib =
  raw_inflate :: "byte list \<Rightarrow> (byte list \<times> byte list) option"
  json_loads :: "string \<Rightarrow> py_exception + json"
  utf8_strict :: "byte list \<Rightarrow> string option"
  utf8_replace :: "byte list \<Rightarrow> string"
  ip_address :: "string \<Rightarrow> ip_version option"

definition isascii :: "char \<Rightarrow> bool" where
  "isascii c = ((of_char c :: nat) < 128)"

definition byte_of_char :: "char \<Rightarrow> byte" where
  "byte_of_char c = of_nat (of_char c)"

definition char_of_byte :: "byte \<Rightarrow> char" where
  "char_of_byte b = char_of (unat b)"

text \<open>\<^verbatim>\<open>raw.decode('utf-8')\<close>: ASCII bytes are their own characters.\<close>

definition decode_utf8 :: "pylib \<Rightarrow> byte list \<Rightarrow> string option" where
  "decode_utf8 L bs =
     (if \<forall>b \<in> set bs. b < 0x80 then Some (map char_of_byte bs) else utf8_strict L bs)"

subsection \<open>\<^verbatim>\<open>base64.urlsafe_b64decode\<close>\<close>

text \<open>
  \<^verbatim>\<open>urlsafe_b64decode\<close> refuses a string with a character outside ASCII, maps \<^verbatim>\<open>-\<close> to \<^verbatim>\<open>+\<close>
  and \<^verbatim>\<open>_\<close> to \<^verbatim>\<open>/\<close>, and calls \<^verbatim>\<open>binascii.a2b_base64\<close> without validation. The table is
  \<^verbatim>\<open>table_a2b_base64\<close> after that translation: the value of a digit of either alphabet.
\<close>

definition b64_alphabet :: string where
  "b64_alphabet = ''ABCDEFGHIJKLMNOPQRSTUVWXYZabcdefghijklmnopqrstuvwxyz0123456789''"

definition b64_value :: "char \<Rightarrow> byte option" where
  "b64_value c =
     (if c = CHR ''+'' \<or> c = CHR ''-'' then Some 62
      else if c = CHR ''/'' \<or> c = CHR ''_'' then Some 63
      else map_option of_nat (map_of (zip b64_alphabet [0 ..< 62]) c))"

text \<open>
  The loop of \<^verbatim>\<open>a2b_base64\<close> (not strict): \<open>quad_pos\<close>, \<open>leftchar\<close> and \<open>pads\<close> are its
  variables. A character that is no digit is skipped; a pad that completes the quad ends
  the decoding, whatever follows; input that ends inside a quad is an error.
\<close>

fun a2b_base64_loop :: "nat \<Rightarrow> byte \<Rightarrow> nat \<Rightarrow> string \<Rightarrow> byte list option" where
  "a2b_base64_loop quad_pos leftchar pads [] = (if quad_pos \<noteq> 0 then None else Some [])"
| "a2b_base64_loop quad_pos leftchar pads (c # cs) =
     (if c = CHR ''='' then
        (if quad_pos \<ge> 2 \<and> quad_pos + (pads + 1) \<ge> 4 then Some []
         else a2b_base64_loop quad_pos leftchar (if quad_pos \<ge> 2 then pads + 1 else pads) cs)
      else case b64_value c of
        None \<Rightarrow> a2b_base64_loop quad_pos leftchar pads cs
      | Some this_ch \<Rightarrow>
          (if quad_pos = 0 then a2b_base64_loop 1 this_ch 0 cs
           else if quad_pos = 1 then
             map_option ((#) (push_bit 2 leftchar OR drop_bit 4 this_ch))
               (a2b_base64_loop 2 (this_ch AND 0x0F) 0 cs)
           else if quad_pos = 2 then
             map_option ((#) (push_bit 4 leftchar OR drop_bit 2 this_ch))
               (a2b_base64_loop 3 (this_ch AND 0x03) 0 cs)
           else
             map_option ((#) (push_bit 6 leftchar OR this_ch))
               (a2b_base64_loop 0 0 0 cs)))"

definition urlsafe_b64decode :: "string \<Rightarrow> byte list option" where
  "urlsafe_b64decode s = (if \<forall>c \<in> set s. isascii c then a2b_base64_loop 0 0 0 s else None)"

subsection \<open>\<^verbatim>\<open>zlib.decompress\<close>\<close>

text \<open>The Adler-32 checksum of RFC 1950.\<close>

definition adler32_step :: "nat \<times> nat \<Rightarrow> byte \<Rightarrow> nat \<times> nat" where
  "adler32_step s x = (let a = (fst s + unat x) mod 65521 in (a, (snd s + a) mod 65521))"

definition adler32 :: "byte list \<Rightarrow> nat" where
  "adler32 bs = (case foldl adler32_step (1, 0) bs of (a, b) \<Rightarrow> b * 65536 + a)"

text \<open>\<^verbatim>\<open>int.from_bytes(bs, 'big')\<close>\<close>

definition int_from_bytes_big :: "byte list \<Rightarrow> nat" where
  "int_from_bytes_big bs = foldl (\<lambda>n b. n * 256 + unat b) 0 bs"

text \<open>
  \<^verbatim>\<open>zlib.decompress(data)\<close> with the default \<^verbatim>\<open>wbits\<close> reads the zlib format of RFC 1950 and
  no other: a header of two bytes (a multiple of 31 as a 16-bit number, method 8, a
  window of at most 32K, no preset dictionary), the DEFLATE stream, and the Adler-32 of
  the output in four bytes; bytes after those are ignored. \<open>None\<close> is \<^verbatim>\<open>zlib.error\<close>.
\<close>

definition zlib_decompress :: "pylib \<Rightarrow> byte list \<Rightarrow> byte list option" where
  "zlib_decompress L data =
     (case data of
        cmf # flg # body \<Rightarrow>
          (if (unat cmf * 256 + unat flg) mod 31 = 0 \<and> cmf AND 0x0F = 8
              \<and> drop_bit 4 cmf \<le> 7 \<and> flg AND 0x20 = 0
           then (case raw_inflate L body of
                   None \<Rightarrow> None
                 | Some (out, rest) \<Rightarrow>
                     (if length rest \<ge> 4 \<and> int_from_bytes_big (take 4 rest) = adler32 out
                      then Some out else None))
           else None)
      | _ \<Rightarrow> None)"

section \<open>\<^verbatim>\<open>decode_vpn_url\<close>\<close>

text \<open>\<^verbatim>\<open>json.loads(bs.decode('utf-8'))\<close>: the value, or the exception of the step that
  raises.\<close>

definition loads_utf8 :: "pylib \<Rightarrow> byte list \<Rightarrow> py_exception + json" where
  "loads_utf8 L bs =
     (case decode_utf8 L bs of None \<Rightarrow> Inl UnicodeDecodeError | Some s \<Rightarrow> json_loads L s)"

text \<open>
  Lines 35 to 46, the body of the first \<^verbatim>\<open>try\<close>: the value, or the exception that leaves the
  body (\<^verbatim>\<open>zlib.error\<close>, the two \<^verbatim>\<open>ValueError\<close>s the body raises itself, the exception of
  \<^verbatim>\<open>decode\<close> or of \<^verbatim>\<open>json.loads\<close>).
\<close>

definition compressed_json :: "pylib \<Rightarrow> byte list \<Rightarrow> py_exception + json" where
  "compressed_json L raw_data =
     (if length raw_data \<ge> 4 then
        (let expected_length = int_from_bytes_big (take 4 raw_data)
         in case zlib_decompress L (drop 4 raw_data) of
              None \<Rightarrow> Inl ZlibError
            | Some decompressed \<Rightarrow>
                (if length decompressed = expected_length then loads_utf8 L decompressed
                 else Inl (ValueError ''Length mismatch after decompression'')))
      else Inl (ValueError ''Data too short for zlib format''))"

text \<open>What the handler of line 48, \<^verbatim>\<open>except (zlib.error, ValueError)\<close>, catches.\<close>

definition fallback_catches :: "py_exception \<Rightarrow> bool" where
  "fallback_catches e = (e = ZlibError \<or> is_ValueError e)"

text \<open>
  Lines 34 to 53: the compressed reading first; on an exception that line 48 catches, the
  whole buffer as JSON, where \<^verbatim>\<open>except Exception\<close> (line 52) turns an exception into a
  \<^verbatim>\<open>ValueError\<close>. An exception that line 48 does not catch leaves the function.
\<close>

definition payload_json :: "pylib \<Rightarrow> byte list \<Rightarrow> py_exception + json" where
  "payload_json L raw_data =
     (case compressed_json L raw_data of
        Inr json_data \<Rightarrow> Inr json_data
      | Inl e \<Rightarrow>
          (if fallback_catches e then
             (case loads_utf8 L raw_data of
                Inr json_data \<Rightarrow> Inr json_data
              | Inl e' \<Rightarrow> (if is_Exception e' then Inl (ValueError ''JSON decode error'')
                           else Inl e'))
           else Inl e))"

text \<open>\<^verbatim>\<open>json.loads(v)\<close> for a value \<open>v\<close> of a configuration: a \<^verbatim>\<open>TypeError\<close> unless \<open>v\<close> is a
  string.\<close>

fun json_loads_value :: "pylib \<Rightarrow> json \<Rightarrow> py_exception + json" where
  "json_loads_value L (JString s) = json_loads L s"
| "json_loads_value L _ = Inl TypeError"

text \<open>Lines 55 to 65: the nested configuration, if the value holds one.\<close>

definition unwrap :: "pylib \<Rightarrow> json \<Rightarrow> py_exception + json" where
  "unwrap L json_data =
     (case json_data of
        JObject kvs \<Rightarrow>
          (case map_of kvs ''containers'' of
             Some (JArray (container # _)) \<Rightarrow>
               (case container of
                  JObject ckvs \<Rightarrow>
                    (case map_of ckvs ''xray'' of
                       Some (JObject xkvs) \<Rightarrow>
                         (case map_of xkvs ''last_config'' of
                            Some last_config \<Rightarrow> json_loads_value L last_config
                          | None \<Rightarrow> Inr json_data)
                     | _ \<Rightarrow> Inr json_data)
                | _ \<Rightarrow> Inr json_data)
           | _ \<Rightarrow> Inr json_data)
      | _ \<Rightarrow> Inr json_data)"

definition startswith :: "string \<Rightarrow> string \<Rightarrow> bool" where
  "startswith s p = (take (length p) s = p)"

definition decode_vpn_url :: "pylib \<Rightarrow> string \<Rightarrow> py_exception + json" where
  "decode_vpn_url L vpn_url =
     (if \<not> startswith vpn_url ''vpn://'' then Inl (ValueError ''Invalid VPN URL format'')
      else
        let encoded_data = strip (drop 6 vpn_url);
            missing_padding = length encoded_data mod 4;
            encoded_data = (if missing_padding \<noteq> 0
                            then encoded_data @ replicate (4 - missing_padding) CHR ''=''
                            else encoded_data)
        in case urlsafe_b64decode encoded_data of
             None \<Rightarrow> Inl (ValueError ''Base64 decode error'')
           | Some raw_data \<Rightarrow> bindE (payload_json L raw_data) (unwrap L))"

subsection \<open>The encoding side\<close>

text \<open>
  The program only decodes. The claims speak of the token that encodes given bytes: the
  base64url encoding of RFC 4648 with its padding, and a length of four bytes, big-endian.
\<close>

definition b64_digit :: "byte \<Rightarrow> char" where
  "b64_digit v = (b64_alphabet @ ''-_'') ! unat v"

text \<open>The four 6-bit groups of three bytes \<open>a\<close>, \<open>b\<close>, \<open>c\<close>.\<close>

definition sextet0 :: "byte \<Rightarrow> byte" where
  "sextet0 a = drop_bit 2 a"

definition sextet1 :: "byte \<Rightarrow> byte \<Rightarrow> byte" where
  "sextet1 a b = push_bit 4 (a AND 0x03) OR drop_bit 4 b"

definition sextet2 :: "byte \<Rightarrow> byte \<Rightarrow> byte" where
  "sextet2 b c = push_bit 2 (b AND 0x0F) OR drop_bit 6 c"

definition sextet3 :: "byte \<Rightarrow> byte" where
  "sextet3 c = c AND 0x3F"

text \<open>A last group of one or two bytes is filled with zero bits and marked with pads.\<close>

fun base64url_encode :: "byte list \<Rightarrow> string" where
  "base64url_encode [] = []"
| "base64url_encode [a] =
     [b64_digit (sextet0 a), b64_digit (sextet1 a 0), CHR ''='', CHR ''='']"
| "base64url_encode [a, b] =
     [b64_digit (sextet0 a), b64_digit (sextet1 a b), b64_digit (sextet2 b 0), CHR ''='']"
| "base64url_encode (a # b # c # bs) =
     [b64_digit (sextet0 a), b64_digit (sextet1 a b), b64_digit (sextet2 b c),
      b64_digit (sextet3 c)]
     @ base64url_encode bs"

definition be32 :: "nat \<Rightarrow> byte list" where
  "be32 n = [of_nat (n div 16777216), of_nat (n div 65536), of_nat (n div 256), of_nat n]"

definition ascii_bytes :: "string \<Rightarrow> byte list" where
  "ascii_bytes s = map byte_of_char s"

text \<open>The token of the claims: the prefix and the encoding of the payload.\<close>

definition vpn_token :: "byte list \<Rightarrow> string" where
  "vpn_token payload = ''vpn://'' @ base64url_encode payload"

text \<open>The path of the nested configuration that \<open>unwrap\<close> looks for.\<close>

definition last_config_path :: "step list" where
  "last_config_path = [Key ''containers'', Idx 0, Key ''xray'', Key ''last_config'']"

subsection \<open>A library for the examples\<close>

text \<open>
  The examples below need the library at particular inputs. \<open>example_lib\<close> holds CPython's
  answers there and refuses everything else:
  \<^item> the DEFLATE stream \<^verbatim>\<open>ab 56 4a 54 b2 52 30 ac 05 00\<close>, which is what
    \<^verbatim>\<open>zlib.compress(b'{"a": 1}')\<close> puts between its header \<^verbatim>\<open>78 9c\<close> and its checksum
    \<^verbatim>\<open>09 e5 02 29\<close>, inflates to \<^verbatim>\<open>{"a": 1}\<close>;
  \<^item> \<^verbatim>\<open>json.loads('{"a": 1}')\<close> is the dict with the one key, \<^verbatim>\<open>json.loads('1')\<close> is 1,
    \<^verbatim>\<open>json.loads\<close> of the text \<open>example_nested_text\<close> is the dict \<open>example_nested\<close>, and
    \<^verbatim>\<open>json.loads('x')\<close> raises \<^verbatim>\<open>JSONDecodeError\<close>;
  \<^item> \<^verbatim>\<open>::1\<close> is an IPv6 address.
\<close>

definition example_deflate :: "byte list" where
  "example_deflate = [0xAB, 0x56, 0x4A, 0x54, 0xB2, 0x52, 0x30, 0xAC, 0x05, 0x00]"

definition example_json_text :: string where
  "example_json_text = ''{\"a\": 1}''"

text \<open>A configuration that holds a nested one, the text \<^verbatim>\<open>1\<close>, and its serialization.\<close>

definition example_nested :: json where
  "example_nested =
     JObject [(''containers'', JArray [JObject [(''xray'', JObject [(''last_config'', JString ''1'')])]])]"

definition example_nested_text :: string where
  "example_nested_text = ''{\"containers\": [{\"xray\": {\"last_config\": \"1\"}}]}''"

text \<open>Two configurations whose \<^verbatim>\<open>last_config\<close> is no JSON text: a string that is no JSON, and
  a number.\<close>

definition example_last_config_text :: json where
  "example_last_config_text =
     JObject [(''containers'', JArray [JObject [(''xray'', JObject [(''last_config'', JString ''x'')])]])]"

definition example_last_config_number :: json where
  "example_last_config_number =
     JObject [(''containers'', JArray [JObject [(''xray'', JObject [(''last_config'', JInt 5)])]])]"

definition example_lib :: pylib where
  "example_lib =
     \<lparr> raw_inflate = (\<lambda>bs. if take 10 bs = example_deflate
                          then Some (ascii_bytes example_json_text, drop 10 bs) else None),
       json_loads = (\<lambda>s. if s = example_json_text then Inr (JObject [(''a'', JInt 1)])
                         else if s = ''1'' then Inr (JInt 1)
                         else if s = example_nested_text then Inr example_nested
                         else Inl JSONDecodeError),
       utf8_strict = (\<lambda>bs. None),
       utf8_replace = (\<lambda>bs. []),
       ip_address = (\<lambda>s. if s = ''::1'' then Some IPv6 else None) \<rparr>"

text \<open>\<^verbatim>\<open>zlib.compress(b'{"a": 1}')\<close>, sixteen bytes.\<close>

definition example_zlib_stream :: "byte list" where
  "example_zlib_stream = [0x78, 0x9C] @ example_deflate @ [0x09, 0xE5, 0x02, 0x29]"

section \<open>\<^verbatim>\<open>urllib.parse\<close>\<close>

text \<open>
  \<^verbatim>\<open>urlparse\<close> and \<^verbatim>\<open>parse_qs\<close> as CPython 3.11 has them, for what \<^verbatim>\<open>from_vless_url\<close> reads of
  their results: the user name, the host name, the port and the query.
\<close>

subsection \<open>Strings\<close>

text \<open>\<^verbatim>\<open>s.partition(c)[0]\<close>, \<^verbatim>\<open>s.partition(c)[2]\<close>, \<^verbatim>\<open>s.rpartition(c)[0]\<close> (where \<open>c\<close> occurs)
  and \<^verbatim>\<open>s.rpartition(c)[2]\<close>, for a separator of one character.\<close>

definition before_first :: "char \<Rightarrow> string \<Rightarrow> string" where
  "before_first c s = takeWhile (\<lambda>x. x \<noteq> c) s"

definition after_first :: "char \<Rightarrow> string \<Rightarrow> string" where
  "after_first c s = drop 1 (dropWhile (\<lambda>x. x \<noteq> c) s)"

definition before_last :: "char \<Rightarrow> string \<Rightarrow> string" where
  "before_last c s = rev (drop 1 (dropWhile (\<lambda>x. x \<noteq> c) (rev s)))"

definition after_last :: "char \<Rightarrow> string \<Rightarrow> string" where
  "after_last c s = rev (takeWhile (\<lambda>x. x \<noteq> c) (rev s))"

text \<open>\<^verbatim>\<open>s.split(c)\<close>\<close>

fun split_on :: "char \<Rightarrow> string \<Rightarrow> string list" where
  "split_on sep [] = [[]]"
| "split_on sep (c # cs) =
     (if c = sep then [] # split_on sep cs
      else (case split_on sep cs of x # xs \<Rightarrow> (c # x) # xs | [] \<Rightarrow> [[c]]))"

text \<open>\<^verbatim>\<open>c.lower()\<close>: the capital letters of ASCII and of Latin-1 have bit 5 clear, their
  small letters have it set.\<close>

definition lower_char :: "char \<Rightarrow> char" where
  "lower_char c =
     (let n = (of_char c :: nat) in
      if (65 \<le> n \<and> n \<le> 90) \<or> (192 \<le> n \<and> n \<le> 222 \<and> n \<noteq> 215)
      then Char (digit0 c) (digit1 c) (digit2 c) (digit3 c) (digit4 c) True (digit6 c) (digit7 c)
      else c)"

definition lower :: "string \<Rightarrow> string" where
  "lower s = map lower_char s"

definition isalpha_ascii :: "char \<Rightarrow> bool" where
  "isalpha_ascii c = (let n = (of_char c :: nat) in (65 \<le> n \<and> n \<le> 90) \<or> (97 \<le> n \<and> n \<le> 122))"

definition isdigit_ascii :: "char \<Rightarrow> bool" where
  "isdigit_ascii c = (let n = (of_char c :: nat) in 48 \<le> n \<and> n \<le> 57)"

definition ishex :: "char \<Rightarrow> bool" where
  "ishex c = (c \<in> set ''0123456789ABCDEFabcdef'')"

text \<open>\<^verbatim>\<open>int(s)\<close> for a string of ASCII digits.\<close>

definition int_of_digits :: "string \<Rightarrow> nat" where
  "int_of_digits s = foldl (\<lambda>n c. n * 10 + (of_char c - 48)) 0 s"

subsection \<open>\<^verbatim>\<open>urlsplit\<close>\<close>

record split_result =
  url_scheme :: string
  url_netloc :: string
  url_path :: string
  url_query :: string
  url_fragment :: string

definition scheme_chars :: string where
  "scheme_chars = ''abcdefghijklmnopqrstuvwxyzABCDEFGHIJKLMNOPQRSTUVWXYZ0123456789+-.''"

text \<open>\<^verbatim>\<open>_UNSAFE_URL_BYTES_TO_REMOVE\<close>: tab, carriage return and line feed.\<close>

definition unsafe_url_byte :: "char \<Rightarrow> bool" where
  "unsafe_url_byte c = (c = CHR 0x09 \<or> c = CHR 0x0D \<or> c = CHR 0x0A)"

text \<open>The characters that end the network location.\<close>

definition netloc_char :: "char \<Rightarrow> bool" where
  "netloc_char c = (c \<noteq> CHR ''/'' \<and> c \<noteq> CHR ''?'' \<and> c \<noteq> CHR ''#'')"

text \<open>\<^verbatim>\<open>re.match(r"\Av[a-fA-F0-9]+\..+\Z", hostname)\<close>, on a host name without line breaks
  (\<^verbatim>\<open>urlsplit\<close> has removed them).\<close>

definition ipvfuture :: "string \<Rightarrow> bool" where
  "ipvfuture h =
     (case h of
        [] \<Rightarrow> False
      | v # r \<Rightarrow> v = CHR ''v'' \<and> takeWhile ishex r \<noteq> []
                 \<and> (case dropWhile ishex r of [] \<Rightarrow> False | d # t \<Rightarrow> d = CHR ''.'' \<and> t \<noteq> []))"

text \<open>\<^verbatim>\<open>_check_bracketed_host\<close>: the exception it raises, if any.\<close>

definition check_bracketed_host :: "pylib \<Rightarrow> string \<Rightarrow> py_exception option" where
  "check_bracketed_host L hostname =
     (if startswith hostname ''v'' then
        (if ipvfuture hostname then None else Some (ValueError ''IPvFuture address is invalid''))
      else (case ip_address L hostname of
              None \<Rightarrow> Some (ValueError ''does not appear to be an IPv4 or IPv6 address'')
            | Some IPv4 \<Rightarrow> Some (ValueError ''An IPv4 address cannot be in brackets'')
            | Some IPv6 \<Rightarrow> None))"

text \<open>The fragment and the query of what follows the network location.\<close>

definition split_rest :: "string \<Rightarrow> string \<Rightarrow> string \<Rightarrow> split_result" where
  "split_rest sch netloc url =
     (let fragment = (if CHR ''#'' \<in> set url then after_first CHR ''#'' url else []);
          url = (if CHR ''#'' \<in> set url then before_first CHR ''#'' url else url);
          query = (if CHR ''?'' \<in> set url then after_first CHR ''?'' url else []);
          url = (if CHR ''?'' \<in> set url then before_first CHR ''?'' url else url)
      in \<lparr> url_scheme = sch, url_netloc = netloc, url_path = url, url_query = query,
           url_fragment = fragment \<rparr>)"

text \<open>Lines 1 to 2 of \<^verbatim>\<open>urlsplit\<close>: control characters and spaces are stripped on the left,
  tabs and line breaks are removed everywhere.\<close>

definition clean_url :: "string \<Rightarrow> string" where
  "clean_url url = filter (\<lambda>c. \<not> unsafe_url_byte c)
                     (dropWhile (\<lambda>c. (of_char c :: nat) \<le> 32) url)"

text \<open>The scheme, when the text before the first colon is one, and what follows it.\<close>

definition split_scheme :: "string \<Rightarrow> string \<times> string" where
  "split_scheme url =
     (let cand = before_first CHR '':'' url
      in if CHR '':'' \<in> set url \<and> cand \<noteq> [] \<and> isalpha_ascii (hd url)
            \<and> (\<forall>c \<in> set cand. c \<in> set scheme_chars)
         then (lower cand, after_first CHR '':'' url)
         else ([], url))"

text \<open>The checks of the brackets of a network location: the exception they raise, if
  any.\<close>

definition check_brackets :: "pylib \<Rightarrow> string \<Rightarrow> py_exception option" where
  "check_brackets L netloc =
     (if (CHR ''['' \<in> set netloc \<and> CHR '']'' \<notin> set netloc)
         \<or> (CHR '']'' \<in> set netloc \<and> CHR ''['' \<notin> set netloc)
      then Some (ValueError ''Invalid IPv6 URL'')
      else if CHR ''['' \<in> set netloc \<and> CHR '']'' \<in> set netloc
      then check_bracketed_host L (before_first CHR '']'' (after_first CHR ''['' netloc))
      else None)"

text \<open>
  \<^verbatim>\<open>urlsplit(url)\<close>: after the scheme, a network location is read after \<^verbatim>\<open>//\<close>, up to the
  first of \<^verbatim>\<open>/?#\<close>. The check \<^verbatim>\<open>_checknetloc\<close> refuses a location whose NFKC form gains one
  of \<^verbatim>\<open>/?#@:\<close>; for code points below 256 that never happens, so the check is not in the
  model. \<^verbatim>\<open>urlparse\<close> splits \<^verbatim>\<open>;parameters\<close> off the path for some schemes, which changes
  nothing the program reads.
\<close>

definition urlsplit :: "pylib \<Rightarrow> string \<Rightarrow> py_exception + split_result" where
  "urlsplit L url0 =
     (let sch = fst (split_scheme (clean_url url0));
          url = snd (split_scheme (clean_url url0))
      in if take 2 url = ''//'' then
           (let netloc = takeWhile netloc_char (drop 2 url);
                rest = dropWhile netloc_char (drop 2 url)
            in case check_brackets L netloc of
                 Some e \<Rightarrow> Inl e
               | None \<Rightarrow> Inr (split_rest sch netloc rest))
         else Inr (split_rest sch [] url))"

subsection \<open>The parts of the network location\<close>

text \<open>\<^verbatim>\<open>parsed.username\<close>\<close>

definition url_username :: "string \<Rightarrow> string option" where
  "url_username netloc =
     (if CHR ''@'' \<in> set netloc then Some (before_first CHR '':'' (before_last CHR ''@'' netloc))
      else None)"

text \<open>\<^verbatim>\<open>_hostinfo\<close>: the host as written and the text of the port.\<close>

definition hostinfo_host :: "string \<Rightarrow> string" where
  "hostinfo_host netloc =
     (let hostinfo = after_last CHR ''@'' netloc
      in if CHR ''['' \<in> set hostinfo
         then before_first CHR '']'' (after_first CHR ''['' hostinfo)
         else before_first CHR '':'' hostinfo)"

definition hostinfo_port :: "string \<Rightarrow> string option" where
  "hostinfo_port netloc =
     (let hostinfo = after_last CHR ''@'' netloc;
          port = (if CHR ''['' \<in> set hostinfo
                  then after_first CHR '':'' (after_first CHR '']'' (after_first CHR ''['' hostinfo))
                  else after_first CHR '':'' hostinfo)
      in if port = [] then None else Some port)"

text \<open>\<^verbatim>\<open>parsed.hostname\<close>: lower case up to a \<^verbatim>\<open>%\<close>, the zone after it as written.\<close>

definition url_hostname :: "string \<Rightarrow> string option" where
  "url_hostname netloc =
     (let hostname = hostinfo_host netloc
      in if hostname = [] then None
         else Some (lower (before_first CHR ''%'' hostname)
                    @ dropWhile (\<lambda>c. c \<noteq> CHR ''%'') hostname))"

text \<open>\<^verbatim>\<open>parsed.port\<close>: a \<^verbatim>\<open>ValueError\<close> unless the text is ASCII digits (no more of them than
  \<^verbatim>\<open>int\<close> converts) for a number up to 65535.\<close>

definition url_port :: "string \<Rightarrow> py_exception + nat option" where
  "url_port netloc =
     (case hostinfo_port netloc of
        None \<Rightarrow> Inr None
      | Some port \<Rightarrow>
          (if list_all isdigit_ascii port then
             (if length port > 4300
              then Inl (ValueError ''Exceeds the limit (4300 digits) for integer string conversion'')
              else if int_of_digits port \<le> 65535 then Inr (Some (int_of_digits port))
              else Inl (ValueError ''Port out of range 0-65535''))
           else Inl (ValueError ''Port could not be cast to integer value'')))"

subsection \<open>\<^verbatim>\<open>parse_qs\<close>\<close>

definition hex_value :: "char \<Rightarrow> nat option" where
  "hex_value c = map_of (zip ''0123456789ABCDEFabcdef''
                   [0, 1, 2, 3, 4, 5, 6, 7, 8, 9, 10, 11, 12, 13, 14, 15, 10, 11, 12, 13, 14, 15]) c"

text \<open>What \<^verbatim>\<open>unquote_to_bytes\<close> makes of a piece that followed a \<^verbatim>\<open>%\<close>.\<close>

definition unquote_item :: "string \<Rightarrow> byte list" where
  "unquote_item item =
     (case item of
        a # b # rest \<Rightarrow>
          (case (hex_value a, hex_value b) of
             (Some x, Some y) \<Rightarrow> of_nat (16 * x + y) # ascii_bytes rest
           | _ \<Rightarrow> ascii_bytes (CHR ''%'' # item))
      | _ \<Rightarrow> ascii_bytes (CHR ''%'' # item))"

definition unquote_to_bytes :: "string \<Rightarrow> byte list" where
  "unquote_to_bytes s =
     (case split_on CHR ''%'' s of
        [] \<Rightarrow> []
      | b # bits \<Rightarrow> ascii_bytes b @ concat (map unquote_item bits))"

definition decode_utf8_replace :: "pylib \<Rightarrow> byte list \<Rightarrow> string" where
  "decode_utf8_replace L bs =
     (if \<forall>b \<in> set bs. b < 0x80 then map char_of_byte bs else utf8_replace L bs)"

text \<open>\<^verbatim>\<open>unquote\<close> of a string with a \<^verbatim>\<open>%\<close>: the runs of ASCII are unquoted to bytes and
  decoded, the other runs are kept.\<close>

function unquote_runs :: "pylib \<Rightarrow> string \<Rightarrow> string" where
  "unquote_runs L [] = []"
| "unquote_runs L (c # cs) =
     (if isascii c
      then decode_utf8_replace L (unquote_to_bytes (c # takeWhile isascii cs))
           @ unquote_runs L (dropWhile isascii cs)
      else (c # takeWhile (\<lambda>x. \<not> isascii x) cs)
           @ unquote_runs L (dropWhile (\<lambda>x. \<not> isascii x) cs))"
  by pat_completeness auto
termination
  by (relation "measure (\<lambda>(L, s). length s)") (auto simp: le_imp_less_Suc length_dropWhile_le)

definition unquote :: "pylib \<Rightarrow> string \<Rightarrow> string" where
  "unquote L s = (if CHR ''%'' \<notin> set s then s else unquote_runs L s)"

definition unquote_plus :: "pylib \<Rightarrow> string \<Rightarrow> string" where
  "unquote_plus L s = unquote L (map (\<lambda>c. if c = CHR ''+'' then CHR '' '' else c) s)"

text \<open>One field \<^verbatim>\<open>name=value\<close> of a query, in the loop of \<^verbatim>\<open>parse_qsl\<close>: the pair it
  appends, if the field has a value.\<close>

definition parse_field :: "pylib \<Rightarrow> string \<Rightarrow> (string \<times> string) list" where
  "parse_field L name_value =
     (if name_value \<noteq> [] \<and> after_first CHR ''='' name_value \<noteq> []
      then [(unquote_plus L (before_first CHR ''='' name_value),
             unquote_plus L (after_first CHR ''='' name_value))]
      else [])"

text \<open>\<^verbatim>\<open>parse_qsl(qs)\<close>: the pairs of the fields that have a value.\<close>

definition parse_qsl :: "pylib \<Rightarrow> string \<Rightarrow> (string \<times> string) list" where
  "parse_qsl L qs =
     (if qs = [] then [] else concat (map (parse_field L) (split_on CHR ''&'' qs)))"

text \<open>\<^verbatim>\<open>parse_qs(qs).get(k, [d])[0]\<close>: the first value of the key.\<close>

definition query_get :: "(string \<times> string) list \<Rightarrow> string \<Rightarrow> string \<Rightarrow> string" where
  "query_get params k d = (case map_of params k of Some v \<Rightarrow> v | None \<Rightarrow> d)"

section \<open>\<^verbatim>\<open>from_vless_url\<close>\<close>

definition opt_str :: "string option \<Rightarrow> json" where
  "opt_str s = (case s of None \<Rightarrow> JNull | Some x \<Rightarrow> JString x)"

text \<open>The dict of lines 84 to 125.\<close>

definition vless_config ::
  "json \<Rightarrow> json \<Rightarrow> int \<Rightarrow> string \<Rightarrow> string \<Rightarrow> string \<Rightarrow> string \<Rightarrow> string \<Rightarrow> string \<Rightarrow> string
     \<Rightarrow> string \<Rightarrow> json" where
  "vless_config uuid address port flow network security server_name fingerprint public_key
     short_id spiderx =
     JObject
      [(''inbounds'', JArray [JObject
          [(''listen'', JString ''127.0.0.1''), (''port'', JInt 10808),
           (''protocol'', JString ''socks''), (''settings'', JObject [(''udp'', JBool True)])]]),
       (''log'', JObject [(''loglevel'', JString ''error'')]),
       (''outbounds'', JArray [JObject
          [(''protocol'', JString ''vless''),
           (''settings'', JObject [(''vnext'', JArray [JObject
              [(''address'', address), (''port'', JInt port),
               (''users'', JArray [JObject
                  [(''id'', uuid), (''encryption'', JString ''none''),
                   (''flow'', JString flow)]])]])]),
           (''streamSettings'', JObject
              [(''network'', JString network), (''security'', JString security),
               (''realitySettings'', JObject
                  [(''serverName'', JString server_name),
                   (''fingerprint'', JString fingerprint),
                   (''publicKey'', JString public_key),
                   (''shortId'', JString short_id),
                   (''spiderX'', JString spiderx)])])]])]"

text \<open>
  \<^verbatim>\<open>from_vless_url\<close>: \<^verbatim>\<open>urlparse\<close> may raise, \<^verbatim>\<open>parsed.port\<close> may raise, and \<^verbatim>\<open>int(None)\<close>, for
  a URL without a port, is a \<^verbatim>\<open>TypeError\<close>.
\<close>

definition from_vless_url :: "pylib \<Rightarrow> string \<Rightarrow> py_exception + json" where
  "from_vless_url L vless_url =
     bindE (urlsplit L vless_url) (\<lambda>parsed.
     bindE (url_port (url_netloc parsed)) (\<lambda>parsed_port.
       case parsed_port of
         None \<Rightarrow> Inl TypeError
       | Some port \<Rightarrow>
           (let uuid = url_username (url_netloc parsed);
                address = url_hostname (url_netloc parsed);
                params = parse_qsl L (url_query parsed)
            in Inr (vless_config (opt_str uuid) (opt_str address) (int port)
                      (query_get params ''flow'' [])
                      (query_get params ''type'' ''tcp'')
                      (query_get params ''security'' ''none'')
                      (query_get params ''sni'' [])
                      (query_get params ''fp'' [])
                      (query_get params ''pbk'' [])
                      (query_get params ''sid'' [])
                      (query_get params ''spx'' [])))))"

subsection \<open>The text of a query\<close>

text \<open>The parameters \<^verbatim>\<open>&k=v\<close> of the pairs that have a value, as \<^verbatim>\<open>to_vless_url\<close> writes
  them.\<close>

definition render_params :: "(string \<times> string) list \<Rightarrow> string" where
  "render_params kvs =
     concat (map (\<lambda>kv. if snd kv \<noteq> [] then ''&'' @ fst kv @ ''='' @ snd kv else []) kvs)"

text \<open>A text that a query carries unchanged: without the separators \<^verbatim>\<open>&\<close> and \<^verbatim>\<open>#\<close>, without
  the escapes \<^verbatim>\<open>%\<close> and \<^verbatim>\<open>+\<close>, without a tab or a line break.\<close>

definition plain :: "string \<Rightarrow> bool" where
  "plain s = list_all (\<lambda>c. c \<noteq> CHR ''&'' \<and> c \<noteq> CHR ''%'' \<and> c \<noteq> CHR ''+'' \<and> c \<noteq> CHR ''#''
                             \<and> \<not> unsafe_url_byte c) s"

text \<open>A text that a network location carries unchanged: without the characters that end
  the location, without brackets, without a tab or a line break.\<close>

definition netloc_text :: "string \<Rightarrow> bool" where
  "netloc_text s = (\<forall>c \<in> set s. netloc_char c \<and> \<not> unsafe_url_byte c \<and> c \<noteq> CHR ''['' \<and> c \<noteq> CHR '']'')"

section \<open>Properties of \<^verbatim>\<open>to_vless_url\<close>\<close>

lemma bindE_simps [simp]: "bindE (Inl e) f = Inl e" "bindE (Inr v) f = f v"
  by (simp_all add: bindE_def)

lemma bindE_E:
  assumes "bindE m f = Inr y"
  obtains x where "m = Inr x" "f x = Inr y"
  using assms by (cases m) simp_all

lemma getitem_key_InrE:
  "getitem_key v k = Inr x \<Longrightarrow> \<exists>kvs. v = JObject kvs \<and> map_of kvs k = Some x"
  by (cases v) (auto split: option.splits)

lemma dict_get_InrE:
  "dict_get v k d = Inr x \<Longrightarrow> \<exists>kvs. v = JObject kvs \<and> x = json_at_or [Key k] d v"
  by (cases v) (auto simp: json_at_or_def split: option.splits)

lemma getitem_0_JObject:
  "getitem_0 v = Inr (JObject kvs) \<Longrightarrow> \<exists>xs. v = JArray (JObject kvs # xs)"
  by (cases v) (auto split: list.splits)

lemma json_at_or_Key2:
  "json_at_or [Key a, Key b] d (JObject kvs) =
     json_at_or [Key b] d (json_at_or [Key a] (JObject []) (JObject kvs))"
  by (simp add: json_at_or_def split: option.splits)

lemma json_at_or_Key3:
  "json_at_or (Key k # s # t # p) d (JObject kvs) =
     (case map_of kvs k of Some v \<Rightarrow> json_at_or (s # t # p) d v | None \<Rightarrow> d)"
  by (simp add: json_at_or_def split: option.splits)

lemma json_at_or_Idx0: "json_at_or (Idx 0 # p) d (JArray (x # xs)) = json_at_or p d x"
  by (simp add: json_at_or_def)

lemma json_at_or_Key1_Some:
  "map_of kvs k = Some v \<Longrightarrow> json_at_or [Key k] d (JObject kvs) = v"
  by (simp add: json_at_or_def)

text \<open>
  When the reads of \<^verbatim>\<open>to_vless_url\<close> all succeed, the values it read are the values at the
  paths of the configuration, and the URL is built from them.
\<close>

lemma vless_url_query_Inr:
  assumes "vless_url_query data = Inr (address, url)"
  shows "\<exists>uuid port user stream.
      json_at user_path data = Some user
    \<and> json_at stream_path data = Some stream
    \<and> json_at (user_path @ [Key ''id'']) data = Some uuid
    \<and> json_at (vnext_path @ [Key ''address'']) data = Some address
    \<and> json_at (vnext_path @ [Key ''port'']) data = Some port
    \<and> url = ''vless://'' @ py_str uuid @ ''@'' @ py_str address @ '':'' @ py_str port
          @ ''?encryption=none''
          @ concat (map (\<lambda>(k, p, d). query_param k (json_at_or p d data)) vless_params)"
  using assms unfolding vless_url_query_def
  apply (elim bindE_E)
  apply (drule getitem_key_InrE)+
  apply (elim exE conjE)
  apply hypsubst
  apply (drule getitem_0_JObject)+
  apply (elim exE conjE)
  apply hypsubst
  apply (drule dict_get_InrE)+
  apply (elim exE conjE)
  apply (simp add: vless_params_def user_path_def vnext_path_def stream_path_def
      json_at_or_Key2 json_at_or_Key3 json_at_or_Idx0 json_at_or_Key1_Some)
  done

lemma json_at_prefix_None:
  "json_at p v = None \<Longrightarrow> json_at (p @ q) v = None"
  by (induction p v rule: json_at.induct) (auto split: option.splits)

lemma to_vless_url_InrE:
  assumes "snd (to_vless_url data ev) = Inr url"
  obtains address body where "vless_url_query data = Inr (address, body)"
    and "url = body @ ''#'' @ display_name address ev"
    and "fst (to_vless_url data ev) \<noteq> []"
  using assms
  by (cases "vless_url_query data"; cases ev)
     (auto simp: to_vless_url_def get_vless_name_def display_name_def Let_def)

lemma example_config_query:
  "vless_url_query example_config =
     Inr (JString ''example.com'',
          ''vless://b831381d@example.com:443?encryption=none&security=tls&sni=sni.example&type=ws'')"
  by (simp add: vless_url_query_def example_config_def query_param_def str_int_def
      digit_char_def)

lemma strip_example [simp]: "strip '' home '' = ''home''"
  by (simp add: strip_def isspace_def)

lemma example_config_url:
  "snd (to_vless_url example_config (Line '' home '')) =
     Inr ''vless://b831381d@example.com:443?encryption=none&security=tls&sni=sni.example&type=ws#home''"
  by (simp add: to_vless_url_def example_config_query get_vless_name_def)

text \<open>
  C7. For every configuration \<^verbatim>\<open>to_vless_url\<close> accepts, the URL is
  \<^verbatim>\<open>vless://\<close>, the uuid, \<^verbatim>\<open>@\<close>, the address, \<^verbatim>\<open>:\<close>, the port and \<^verbatim>\<open>?encryption=none\<close>, then the parameters \<^verbatim>\<open>flow\<close>,
  \<^verbatim>\<open>security\<close>, \<^verbatim>\<open>sni\<close>, \<^verbatim>\<open>fp\<close>, \<^verbatim>\<open>pbk\<close>, \<^verbatim>\<open>sid\<close>, \<^verbatim>\<open>spx\<close>, \<^verbatim>\<open>type\<close> in this order
  (\<open>vless_params\<close>), each one written as \<^verbatim>\<open>&name=value\<close> exactly when its value (or the
  default of the source, where the key is absent) is true as a Python condition, which
  for a string means non-empty, then \<^verbatim>\<open>#\<close> and the display name.
\<close>

theorem to_vless_url_shape:
  assumes "snd (to_vless_url data ev) = Inr url"
  shows "\<exists>uuid address port.
      json_at (user_path @ [Key ''id'']) data = Some uuid
    \<and> json_at (vnext_path @ [Key ''address'']) data = Some address
    \<and> json_at (vnext_path @ [Key ''port'']) data = Some port
    \<and> url = ''vless://'' @ py_str uuid @ ''@'' @ py_str address @ '':'' @ py_str port
          @ ''?encryption=none''
          @ concat (map (\<lambda>(k, p, d). let v = json_at_or p d data in
                           if py_bool v then ''&'' @ k @ ''='' @ py_str v else [])
                        vless_params)
          @ ''#'' @ display_name address ev"
proof -
  from assms obtain address body where q: "vless_url_query data = Inr (address, body)"
    and u: "url = body @ ''#'' @ display_name address ev"
    by (rule to_vless_url_InrE)
  from vless_url_query_Inr[OF q] u show ?thesis
    by (auto simp: query_param_def Let_def)
qed

theorem to_vless_url_shape_witness:
  "snd (to_vless_url example_config (Line '' home '')) =
     Inr ''vless://b831381d@example.com:443?encryption=none&security=tls&sni=sni.example&type=ws#home''
   \<and> (\<exists>uuid address port.
      json_at (user_path @ [Key ''id'']) example_config = Some uuid
    \<and> json_at (vnext_path @ [Key ''address'']) example_config = Some address
    \<and> json_at (vnext_path @ [Key ''port'']) example_config = Some port
    \<and> ''vless://b831381d@example.com:443?encryption=none&security=tls&sni=sni.example&type=ws#home''
        = ''vless://'' @ py_str uuid @ ''@'' @ py_str address @ '':'' @ py_str port
          @ ''?encryption=none''
          @ concat (map (\<lambda>(k, p, d). let v = json_at_or p d example_config in
                           if py_bool v then ''&'' @ k @ ''='' @ py_str v else [])
                        vless_params)
          @ ''#'' @ display_name address (Line '' home ''))"
  using to_vless_url_shape[OF example_config_url] example_config_url by blast

lemma getitem_key_exc: "getitem_key v k = Inl e \<Longrightarrow> is_Exception e"
  by (cases v) (auto split: option.splits)

lemma getitem_0_exc: "getitem_0 v = Inl e \<Longrightarrow> is_Exception e"
  by (cases v) (auto split: list.splits)

lemma dict_get_exc: "dict_get v k d = Inl e \<Longrightarrow> is_Exception e"
  by (cases v) (auto split: option.splits)

lemma bindE_InlE:
  assumes "bindE m f = Inl e"
  obtains "m = Inl e" | x where "m = Inr x" "f x = Inl e"
  using assms by (cases m) simp_all

text \<open>The \<^verbatim>\<open>try\<close> block raises nothing but \<open>KeyError\<close>, \<open>IndexError\<close>, \<open>TypeError\<close> and
  \<open>AttributeError\<close> before the prompt.\<close>

lemma vless_url_query_exc:
  "vless_url_query data = Inl e \<Longrightarrow> is_Exception e"
  unfolding vless_url_query_def
  apply (elim bindE_InlE)
  apply (auto dest: getitem_key_exc getitem_0_exc dict_get_exc)
  done

lemma vless_url_query_paths:
  assumes "vless_url_query data = Inr r"
  shows "json_at [Key ''outbounds'', Idx 0] data \<noteq> None" "json_at vnext_path data \<noteq> None"
    "json_at user_path data \<noteq> None" "json_at stream_path data \<noteq> None"
proof -
  obtain address url where r: "r = (address, url)" by (cases r)
  from vless_url_query_Inr[OF assms[unfolded r]]
  have u: "json_at user_path data \<noteq> None" and s: "json_at stream_path data \<noteq> None"
    by auto
  show "json_at user_path data \<noteq> None" "json_at stream_path data \<noteq> None" by fact+
  show v: "json_at vnext_path data \<noteq> None"
  proof
    assume "json_at vnext_path data = None"
    from json_at_prefix_None[OF this, of "[Key ''users'', Idx 0]"] u show False
      by (simp add: user_path_def)
  qed
  show "json_at [Key ''outbounds'', Idx 0] data \<noteq> None"
  proof
    assume "json_at [Key ''outbounds'', Idx 0] data = None"
    from json_at_prefix_None[OF this, of "[Key ''settings'', Key ''vnext'', Idx 0]"] v
    show False by (simp add: vnext_path_def)
  qed
qed

text \<open>
  C4, as the code has it. When one of the paths \<^verbatim>\<open>outbounds[0]\<close>, \<^verbatim>\<open>settings.vnext[0]\<close>,
  \<^verbatim>\<open>users[0]\<close> or \<^verbatim>\<open>streamSettings\<close> is absent from the configuration (or leads through a
  value of the wrong kind), \<^verbatim>\<open>to_vless_url\<close> writes nothing and raises \<open>SystemExit\<close> with
  the exception of the failed read as its cause. \<open>SystemExit\<close> is no \<^verbatim>\<open>Exception\<close>: the
  handlers of the interactive loop let it pass, and the process ends.
\<close>

theorem to_vless_url_missing_path:
  assumes "json_at [Key ''outbounds'', Idx 0] data = None \<or> json_at vnext_path data = None
         \<or> json_at user_path data = None \<or> json_at stream_path data = None"
  shows "\<exists>e. to_vless_url data ev = ([], Inl (SystemExit e)) \<and> is_Exception e
           \<and> main_handles (SystemExit e) = ProcessExits"
proof (cases "vless_url_query data")
  case (Inl e)
  then have "to_vless_url data ev = ([], Inl (SystemExit e))"
    by (simp add: to_vless_url_def)
  moreover have "is_Exception e" using Inl by (rule vless_url_query_exc)
  ultimately show ?thesis by (auto simp: main_handles_def)
next
  case (Inr r)
  from vless_url_query_paths[OF Inr] assms have False by auto
  then show ?thesis ..
qed

theorem to_vless_url_missing_path_witness:
  "json_at user_path (JObject [(''outbounds'', JArray [])]) = None
   \<and> (\<exists>e. to_vless_url (JObject [(''outbounds'', JArray [])]) CtrlC = ([], Inl (SystemExit e))
          \<and> is_Exception e \<and> main_handles (SystemExit e) = ProcessExits)"
proof -
  have h: "json_at user_path (JObject [(''outbounds'', JArray [])]) = None"
    by (simp add: user_path_def vnext_path_def)
  from to_vless_url_missing_path[of "JObject [(''outbounds'', JArray [])]" CtrlC] h
  show ?thesis by blast
qed

text \<open>
  The claim C4 as the specification states it, an exception returned to the caller and a
  process that goes on, fails on the empty configuration: the result is \<open>SystemExit\<close>.
\<close>

theorem to_vless_url_exits_counterexample:
  "json_at [Key ''outbounds'', Idx 0] (JObject []) = None
   \<and> to_vless_url (JObject []) (Line []) = ([], Inl (SystemExit (KeyError (JString ''outbounds''))))
   \<and> \<not> is_Exception (SystemExit (KeyError (JString ''outbounds'')))
   \<and> main_handles (SystemExit (KeyError (JString ''outbounds''))) = ProcessExits"
  by (simp add: to_vless_url_def vless_url_query_def main_handles_def)

text \<open>
  C6, as the code has it. \<^verbatim>\<open>to_vless_url\<close> takes the configuration alone and asks the
  console for the display name: whenever it returns a URL it has written the prompt, and
  two URLs it returns for one configuration are equal up to \<^verbatim>\<open>#\<close>, the rest being the
  display name that the console event decides.
\<close>

theorem to_vless_url_console:
  assumes "snd (to_vless_url data ev) = Inr url" and "snd (to_vless_url data ev') = Inr url'"
  shows "fst (to_vless_url data ev) \<noteq> []
       \<and> (\<exists>body address. json_at (vnext_path @ [Key ''address'']) data = Some address
            \<and> url = body @ ''#'' @ display_name address ev
            \<and> url' = body @ ''#'' @ display_name address ev')"
proof -
  from assms(1) obtain address body where q: "vless_url_query data = Inr (address, body)"
    and u: "url = body @ ''#'' @ display_name address ev"
    and w: "fst (to_vless_url data ev) \<noteq> []"
    by (rule to_vless_url_InrE)
  from assms(2) obtain address' body' where q': "vless_url_query data = Inr (address', body')"
    and u': "url' = body' @ ''#'' @ display_name address' ev'"
    by (rule to_vless_url_InrE)
  from q q' have "address' = address" "body' = body" by simp_all
  with vless_url_query_Inr[OF q] u u' w show ?thesis by blast
qed

lemma example_config_url_CtrlC:
  "snd (to_vless_url example_config CtrlC) =
     Inr ''vless://b831381d@example.com:443?encryption=none&security=tls&sni=sni.example&type=ws#example.com''"
  by (simp add: to_vless_url_def example_config_query get_vless_name_def)

theorem to_vless_url_console_witness:
  "snd (to_vless_url example_config (Line '' home '')) =
     Inr ''vless://b831381d@example.com:443?encryption=none&security=tls&sni=sni.example&type=ws#home''
   \<and> snd (to_vless_url example_config CtrlC) =
     Inr ''vless://b831381d@example.com:443?encryption=none&security=tls&sni=sni.example&type=ws#example.com''
   \<and> fst (to_vless_url example_config (Line '' home '')) \<noteq> []
   \<and> (\<exists>body address. json_at (vnext_path @ [Key ''address'']) example_config = Some address
        \<and> ''vless://b831381d@example.com:443?encryption=none&security=tls&sni=sni.example&type=ws#home''
            = body @ ''#'' @ display_name address (Line '' home '')
        \<and> ''vless://b831381d@example.com:443?encryption=none&security=tls&sni=sni.example&type=ws#example.com''
            = body @ ''#'' @ display_name address CtrlC)"
  using to_vless_url_console[OF example_config_url example_config_url_CtrlC]
    example_config_url example_config_url_CtrlC
  by blast

text \<open>
  The claim C6 as the specification states it, no console I/O and an output that the
  configuration alone decides, fails: two runs on one configuration return different URLs
  when the user types different names, and the prompt is written.
\<close>

theorem to_vless_url_console_counterexample:
  "snd (to_vless_url example_config (Line '' home '')) \<noteq> snd (to_vless_url example_config CtrlC)
   \<and> fst (to_vless_url example_config (Line '' home '')) \<noteq> []"
  by (simp add: to_vless_url_def example_config_query get_vless_name_def)

section \<open>Properties of \<^verbatim>\<open>decode_vpn_url\<close>\<close>

subsection \<open>Decoding what base64url encodes\<close>

lemma b64_table:
  "\<forall>n \<in> set [0 ..< 64].
     b64_value (b64_digit (of_nat n)) = Some (of_nat n) \<and> b64_digit (of_nat n) \<noteq> CHR ''=''
     \<and> isascii (b64_digit (of_nat n)) \<and> \<not> isspace (b64_digit (of_nat n))"
  by code_simp

lemma b64_value_digit:
  fixes v :: byte
  assumes "v < 64"
  shows "b64_value (b64_digit v) = Some v" "b64_digit v \<noteq> CHR ''=''" "isascii (b64_digit v)"
    "\<not> isspace (b64_digit v)"
proof -
  from assms have "unat v < 64" by (simp add: word_less_nat_alt)
  then have "unat v \<in> set [0 ..< 64]" by simp
  with b64_table have "b64_value (b64_digit (of_nat (unat v))) = Some (of_nat (unat v))
      \<and> b64_digit (of_nat (unat v)) \<noteq> CHR ''='' \<and> isascii (b64_digit (of_nat (unat v)))
      \<and> \<not> isspace (b64_digit (of_nat (unat v)))"
    by blast
  then show "b64_value (b64_digit v) = Some v" "b64_digit v \<noteq> CHR ''=''" "isascii (b64_digit v)"
    "\<not> isspace (b64_digit v)"
    by simp_all
qed

lemma masks: "(0x03 :: byte) = mask 2" "(0x0F :: byte) = mask 4" "(0x3F :: byte) = mask 6"
  by (simp_all add: mask_eq_exp_minus_1)

lemma lt64I:
  fixes x :: byte
  assumes "\<And>n. bit x n \<Longrightarrow> n < 6"
  shows "x < 64"
proof -
  have "x AND mask 6 = x"
    by (rule bit_word_eqI) (auto simp: bit_simps dest: assms)
  then have "x < 2 ^ 6"
    by (simp add: mask_eq_iff_w2p word_size)
  then show ?thesis by simp
qed

lemma sextet_bounds:
  "sextet0 a < 64" "sextet1 a b < 64" "sextet2 b c < 64" "sextet3 c < 64"
  unfolding masks sextet0_def sextet1_def sextet2_def sextet3_def
  by (rule lt64I; auto simp: bit_simps dest: bit_imp_le_length)+

lemma less_8E:
  assumes "n < (8::nat)"
  obtains "n = 0" | "n = 1" | "n = 2" | "n = 3" | "n = 4" | "n = 5" | "n = 6" | "n = 7"
  using assms by arith

lemma regroup:
  "push_bit 2 (sextet0 a) OR drop_bit 4 (sextet1 a b) = a"
  "push_bit 4 (sextet1 a b AND 0x0F) OR drop_bit 2 (sextet2 b c) = b"
  "push_bit 6 (sextet2 b c AND 0x03) OR sextet3 c = c"
  unfolding masks sextet0_def sextet1_def sextet2_def sextet3_def
  by (rule bit_word_eqI; simp; erule less_8E; simp add: bit_simps)+

lemma regroup':
  "push_bit 4 (sextet1 a b) AND 240 OR drop_bit 2 (sextet2 b c) = b"
  "push_bit 6 (sextet2 b c) AND 192 OR sextet3 c = c"
  using regroup(2)[of a b c] regroup(3)[of b c] by simp_all

lemma a2b_base64_pad:
  "a2b_base64_loop q l p (CHR ''='' # cs) =
     (if q \<ge> 2 \<and> q + (p + 1) \<ge> 4 then Some []
      else a2b_base64_loop q l (if q \<ge> 2 then p + 1 else p) cs)"
  by simp

lemma a2b_base64_digit:
  fixes v :: byte
  assumes "v < 64"
  shows "a2b_base64_loop q l p (b64_digit v # cs) =
     (if q = 0 then a2b_base64_loop 1 v 0 cs
      else if q = 1 then map_option ((#) (push_bit 2 l OR drop_bit 4 v)) (a2b_base64_loop 2 (v AND 0x0F) 0 cs)
      else if q = 2 then map_option ((#) (push_bit 4 l OR drop_bit 2 v)) (a2b_base64_loop 3 (v AND 0x03) 0 cs)
      else map_option ((#) (push_bit 6 l OR v)) (a2b_base64_loop 0 0 0 cs))"
  using b64_value_digit[OF assms] by simp

lemma a2b_base64_encode: "a2b_base64_loop 0 0 0 (base64url_encode bs) = Some bs"
  by (induction bs rule: base64url_encode.induct)
     (simp_all add: a2b_base64_digit a2b_base64_pad sextet_bounds regroup regroup'
        del: a2b_base64_loop.simps(2))

lemma pad_char: "isascii CHR ''=''" "\<not> isspace CHR ''=''"
  by (simp_all add: isascii_def isspace_def)

lemma encode_chars:
  "c \<in> set (base64url_encode bs) \<Longrightarrow> isascii c \<and> \<not> isspace c"
  by (induction bs rule: base64url_encode.induct)
     (auto simp: b64_value_digit sextet_bounds pad_char)

lemma length_encode: "length (base64url_encode bs) mod 4 = 0"
  by (induction bs rule: base64url_encode.induct) simp_all

lemma dropWhile_none: "\<forall>c \<in> set s. \<not> P c \<Longrightarrow> dropWhile P s = s"
  by (cases s) auto

lemma strip_no_space: "\<forall>c \<in> set s. \<not> isspace c \<Longrightarrow> strip s = s"
  by (simp add: strip_def dropWhile_none)

lemma decode_vpn_url_token:
  "decode_vpn_url L (vpn_token bs) = bindE (payload_json L bs) (unwrap L)"
proof -
  have s: "strip (base64url_encode bs) = base64url_encode bs"
    by (rule strip_no_space) (auto dest: encode_chars)
  have a: "\<forall>c \<in> set (base64url_encode bs). isascii c"
    by (auto dest: encode_chars)
  show ?thesis
    by (simp add: decode_vpn_url_def vpn_token_def startswith_def s length_encode
        urlsafe_b64decode_def a a2b_base64_encode)
qed

lemma int_from_bytes_big_be32:
  assumes "n < 2 ^ 32"
  shows "int_from_bytes_big (be32 n) = n"
proof -
  have d3: "unat (of_nat (n div 16777216) :: byte) = n div 16777216"
    using assms by (simp add: unat_of_nat)
  have d: "unat (of_nat (n div 65536) :: byte) = n div 65536 mod 256"
    "unat (of_nat (n div 256) :: byte) = n div 256 mod 256"
    "unat (of_nat n :: byte) = n mod 256"
    by (simp_all add: unat_of_nat)
  have s2: "n div 16777216 * 256 + n div 65536 mod 256 = n div 65536"
    using div_mult_mod_eq[of "n div 65536" 256] by (simp add: div_mult2_eq[symmetric])
  have s1: "n div 65536 * 256 + n div 256 mod 256 = n div 256"
    using div_mult_mod_eq[of "n div 256" 256] by (simp add: div_mult2_eq[symmetric])
  have s0: "n div 256 * 256 + n mod 256 = n"
    by simp
  show ?thesis
    by (simp add: int_from_bytes_big_def be32_def d3 d s2 s1 s0)
qed

subsection \<open>Padding\<close>

lemma strip_ends:
  assumes "s = [] \<or> (\<not> isspace (hd s) \<and> \<not> isspace (last s))"
  shows "strip s = s"
proof (cases "s = []")
  case True
  then show ?thesis by (simp add: strip_def)
next
  case False
  with assms have h: "\<not> isspace (hd s)" and l: "\<not> isspace (last s)" by auto
  from h False have "dropWhile isspace s = s" by (simp add: dropWhile_eq_self_iff)
  moreover from l False have "dropWhile isspace (rev s) = rev s"
    by (simp add: dropWhile_eq_self_iff hd_rev)
  ultimately show ?thesis by (simp add: strip_def)
qed

lemma strip_self_ends:
  assumes "strip s = s"
  shows "s = [] \<or> (\<not> isspace (hd s) \<and> \<not> isspace (last s))"
proof (cases "s = []")
  case True
  then show ?thesis by simp
next
  case False
  have len: "length (strip s) \<le> length (dropWhile isspace s)"
    using length_dropWhile_le[of isspace "rev (dropWhile isspace s)"] by (simp add: strip_def)
  have h: "\<not> isspace (hd s)"
  proof
    assume "isspace (hd s)"
    with False have "dropWhile isspace s = dropWhile isspace (tl s)"
      by (cases s) simp_all
    then have "length (dropWhile isspace s) \<le> length (tl s)"
      using length_dropWhile_le[of isspace "tl s"] by simp
    with False have "length (dropWhile isspace s) < length s"
      by (cases s) simp_all
    with len assms show False by simp
  qed
  with False have "dropWhile isspace s = s" by (simp add: dropWhile_eq_self_iff)
  with assms have "dropWhile isspace (rev s) = rev s"
    by (simp add: strip_def) (metis rev_rev_ident)
  with False have "\<not> isspace (last s)"
    by (simp add: dropWhile_eq_self_iff hd_rev)
  with h show ?thesis by simp
qed

lemma strip_append_pads:
  assumes "strip body = body"
  shows "strip (body @ replicate m CHR ''='') = body @ replicate m CHR ''=''"
proof (cases "m = 0")
  case True
  with assms show ?thesis by simp
next
  case False
  from strip_self_ends[OF assms] False show ?thesis
    by (intro strip_ends) (auto simp: pad_char hd_append)
qed

lemma missing_padding:
  assumes "(l + n) mod 4 = 0" and "k \<le> n" and "n \<le> (3::nat)"
  shows "(l + (n - k)) mod 4 = (if k = 0 then 0 else 4 - k)"
proof -
  from assms(3) have n: "n = 0 \<or> n = 1 \<or> n = 2 \<or> n = 3" by arith
  from assms(2,3) have k: "k = 0 \<or> k = 1 \<or> k = 2 \<or> k = 3" by arith
  from n k assms(1,2) show ?thesis
    by (elim disjE; simp; presburger)
qed

text \<open>Lines 21 to 26 restore the pads a payload lacks.\<close>

lemma pad_restore:
  assumes "strip body = body" and "n \<le> 3" and "(length body + n) mod 4 = 0" and "k \<le> n"
  shows "(let encoded_data = strip (drop 6 (''vpn://'' @ body @ replicate (n - k) CHR ''=''));
              missing_padding = length encoded_data mod 4
          in if missing_padding \<noteq> 0
             then encoded_data @ replicate (4 - missing_padding) CHR ''=''
             else encoded_data)
         = body @ replicate n CHR ''=''"
proof -
  have m: "(length body + (n - k)) mod 4 = (if k = 0 then 0 else 4 - k)"
    using assms(3,4,2) by (rule missing_padding)
  have r: "k \<noteq> 0 \<Longrightarrow> replicate (n - k) CHR ''='' @ replicate k CHR ''='' = replicate n CHR ''=''"
    using assms(4) by (simp flip: replicate_add)
  from assms(2,4) have k3: "k \<le> 3" by simp
  show ?thesis
    using k3 by (auto simp: Let_def strip_append_pads[OF assms(1)] m r)
qed

lemma decode_vpn_url_unpadded:
  assumes "strip body = body" and "n \<le> 3" and "(length body + n) mod 4 = 0" and "k \<le> n"
  shows "decode_vpn_url L (''vpn://'' @ body @ replicate (n - k) CHR ''='')
       = decode_vpn_url L (''vpn://'' @ body @ replicate n CHR ''='')"
proof -
  have "decode_vpn_url L (''vpn://'' @ body @ replicate (n - k) CHR ''='')
      = (case urlsafe_b64decode (body @ replicate n CHR ''='') of
           None \<Rightarrow> Inl (ValueError ''Base64 decode error'')
         | Some raw_data \<Rightarrow> bindE (payload_json L raw_data) (unwrap L))"
    if "k \<le> n" for k
    using pad_restore[OF assms(1,2,3) that]
    by (simp add: decode_vpn_url_def startswith_def Let_def)
  from this[of k] this[of 0] assms(4) show ?thesis by simp
qed
subsection \<open>The examples\<close>

lemma char_of_byte_of_char [simp]: "char_of_byte (byte_of_char c) = c"
  by (simp add: char_of_byte_def byte_of_char_def unat_of_nat)

lemma byte_of_char_ascii: "byte_of_char c < 0x80 \<longleftrightarrow> isascii c"
proof -
  have "(of_char c :: nat) < 256" by simp
  then have "unat (of_nat (of_char c) :: byte) = of_char c"
    by (simp add: unat_of_nat)
  then show ?thesis
    by (simp add: byte_of_char_def isascii_def word_less_nat_alt)
qed

lemma decode_utf8_ascii:
  "\<forall>c \<in> set s. isascii c \<Longrightarrow> decode_utf8 L (ascii_bytes s) = Some s"
  by (simp add: decode_utf8_def ascii_bytes_def byte_of_char_ascii comp_def)

lemma example_loads:
  "loads_utf8 example_lib (ascii_bytes example_json_text) = Inr (JObject [(''a'', JInt 1)])"
proof -
  have "\<forall>c \<in> set example_json_text. isascii c"
    by (simp add: example_json_text_def isascii_def)
  then show ?thesis
    by (simp add: loads_utf8_def decode_utf8_ascii) (simp add: example_lib_def)
qed

lemma example_zlib:
  "zlib_decompress example_lib example_zlib_stream = Some (ascii_bytes example_json_text)"
  by (simp add: zlib_decompress_def example_lib_def example_deflate_def int_from_bytes_big_def
      example_zlib_stream_def
      adler32_def adler32_step_def ascii_bytes_def example_json_text_def byte_of_char_def)

lemma example_length: "length (ascii_bytes example_json_text) = 8"
  by (simp add: ascii_bytes_def example_json_text_def)

lemma example_bare_not_compressed:
  "compressed_json example_lib (ascii_bytes example_json_text) = Inl ZlibError"
  by (simp add: compressed_json_def zlib_decompress_def ascii_bytes_def example_json_text_def
      byte_of_char_def)

lemma example_raw_deflate:
  "payload_json example_lib (be32 8 @ example_deflate) = Inl (ValueError ''JSON decode error'')"
  by (simp add: payload_json_def compressed_json_def zlib_decompress_def be32_def
      example_deflate_def loads_utf8_def decode_utf8_def fallback_catches_def)
     (simp add: example_lib_def)

lemma example_no_last_config: "json_at last_config_path (JObject [(''a'', JInt 1)]) = None"
  by (simp add: last_config_path_def)

subsection \<open>The nested configuration\<close>

lemma unwrap_no_path:
  "json_at last_config_path j = None \<Longrightarrow> unwrap L j = Inr j"
  by (auto simp: unwrap_def last_config_path_def split: json.splits option.splits list.splits)

lemma unwrap_path:
  "json_at last_config_path j = Some v \<Longrightarrow> unwrap L j = json_loads_value L v"
  by (auto simp: unwrap_def last_config_path_def split: json.splits option.splits list.splits if_splits)

lemma example_config_no_last_config: "json_at last_config_path example_config = None"
  by (simp add: last_config_path_def example_config_def)

lemma example_nested_path: "json_at last_config_path example_nested = Some (JString ''1'')"
  by (simp add: last_config_path_def example_nested_def)

lemma example_last_config_text_path:
  "json_at last_config_path example_last_config_text = Some (JString ''x'')"
  by (simp add: last_config_path_def example_last_config_text_def)

lemma example_loads_1: "json_loads example_lib ''1'' = Inr (JInt 1)"
  by (simp add: example_lib_def example_json_text_def)

lemma example_loads_x: "json_loads example_lib ''x'' = Inl JSONDecodeError"
  by (simp add: example_lib_def example_json_text_def example_nested_text_def)




subsection \<open>Tokens\<close>

text \<open>
  C9. A payload that lacks \<open>k\<close> of the \<open>n\<close> pads that bring its length to a multiple of
  four, \<open>n\<close> up to three, decodes to what the padded payload decodes to, success or
  failure; and when the padded payload is the base64url encoding of some bytes, the
  base64 step succeeds with those bytes. The payload is taken without white space around
  it (\<^verbatim>\<open>decode_vpn_url\<close> strips it before it counts).
\<close>

theorem decode_vpn_url_padding:
  assumes "strip body = body" and "n \<le> 3" and "(length body + n) mod 4 = 0" and "k \<le> n"
  shows "decode_vpn_url L (''vpn://'' @ body @ replicate (n - k) CHR ''='')
           = decode_vpn_url L (''vpn://'' @ body @ replicate n CHR ''='')
       \<and> (\<forall>raw. body @ replicate n CHR ''='' = base64url_encode raw \<longrightarrow>
              decode_vpn_url L (''vpn://'' @ body @ replicate (n - k) CHR ''='')
                = bindE (payload_json L raw) (unwrap L))"
  using decode_vpn_url_unpadded[OF assms, of L] decode_vpn_url_token[unfolded vpn_token_def, of L]
  by simp

theorem decode_vpn_url_padding_witness:
  "strip ''eyJhIjogMX0'' = ''eyJhIjogMX0'' \<and> (1::nat) \<le> 3
   \<and> (length ''eyJhIjogMX0'' + 1) mod 4 = 0
   \<and> decode_vpn_url example_lib ''vpn://eyJhIjogMX0''
       = decode_vpn_url example_lib ''vpn://eyJhIjogMX0=''
   \<and> ''eyJhIjogMX0='' = base64url_encode (ascii_bytes example_json_text)
   \<and> decode_vpn_url example_lib ''vpn://eyJhIjogMX0'' = Inr (JObject [(''a'', JInt 1)])"
proof -
  have s: "strip ''eyJhIjogMX0'' = ''eyJhIjogMX0''"
    by (simp add: strip_def isspace_def)
  have e: "''eyJhIjogMX0='' = base64url_encode (ascii_bytes example_json_text)"
    by (simp add: ascii_bytes_def example_json_text_def byte_of_char_def b64_digit_def
        b64_alphabet_def sextet0_def sextet1_def sextet2_def sextet3_def)
  have p: "payload_json example_lib (ascii_bytes example_json_text) = Inr (JObject [(''a'', JInt 1)])"
    by (simp add: payload_json_def example_bare_not_compressed example_loads fallback_catches_def)
  have u: "unwrap example_lib (JObject [(''a'', JInt 1)]) = Inr (JObject [(''a'', JInt 1)])"
    by (rule unwrap_no_path[OF example_no_last_config])
  have h: "(1::nat) \<le> 3" "(length ''eyJhIjogMX0'' + 1) mod 4 = 0" "(1::nat) \<le> 1"
    by simp_all
  note t = decode_vpn_url_padding[OF s h, of example_lib]
  have e': "''eyJhIjogMX0'' @ replicate 1 CHR ''='' = base64url_encode (ascii_bytes example_json_text)"
    using e by simp
  from t have a: "decode_vpn_url example_lib (''vpn://'' @ ''eyJhIjogMX0'' @ replicate (1 - 1) CHR ''='')
      = decode_vpn_url example_lib (''vpn://'' @ ''eyJhIjogMX0'' @ replicate 1 CHR ''='')"
    by (rule conjunct1)
  from t have "decode_vpn_url example_lib (''vpn://'' @ ''eyJhIjogMX0'' @ replicate (1 - 1) CHR ''='')
      = bindE (payload_json example_lib (ascii_bytes example_json_text)) (unwrap example_lib)"
    using e' by blast
  with p u have b: "decode_vpn_url example_lib (''vpn://'' @ ''eyJhIjogMX0'' @ replicate (1 - 1) CHR ''='')
      = Inr (JObject [(''a'', JInt 1)])"
    by simp
  have "decode_vpn_url example_lib ''vpn://eyJhIjogMX0''
      = decode_vpn_url example_lib ''vpn://eyJhIjogMX0=''"
    using a by simp
  moreover have "decode_vpn_url example_lib ''vpn://eyJhIjogMX0'' = Inr (JObject [(''a'', JInt 1)])"
    using b by simp
  ultimately show ?thesis using s e by simp
qed

lemma compressed_json_prefixed:
  assumes "loads_utf8 L ser = Inr j" and "length ser < 2 ^ 32" and "zlib_decompress L z = Some ser"
  shows "compressed_json L (be32 (length ser) @ z) = Inr j"
proof -
  have "length (be32 (length ser)) = 4" by (simp add: be32_def)
  then show ?thesis
    using assms int_from_bytes_big_be32[OF assms(2)]
    by (simp add: compressed_json_def)
qed

text \<open>
  C2, as the code has it. \<^verbatim>\<open>decode_vpn_url\<close> inflates with \<^verbatim>\<open>zlib.decompress\<close>, which reads
  the zlib format. For bytes \<open>ser\<close> that \<^verbatim>\<open>json.loads\<close> reads as \<open>j\<close>, shorter than \<open>2^32\<close>,
  and a stream \<open>z\<close> that \<^verbatim>\<open>zlib.decompress\<close> inflates to \<open>ser\<close>, the token of the length of
  \<open>ser\<close> in four bytes followed by \<open>z\<close> decodes to \<open>j\<close>: lines 34 to 53 yield \<open>j\<close>, and
  the whole function yields \<open>unwrap\<close> of it, which is \<open>j\<close> itself unless \<open>j\<close> holds a nested
  configuration.
\<close>

theorem decode_vpn_url_compressed:
  assumes "loads_utf8 L ser = Inr j" and "length ser < 2 ^ 32"
    and "zlib_decompress L z = Some ser"
  shows "payload_json L (be32 (length ser) @ z) = Inr j
       \<and> decode_vpn_url L (vpn_token (be32 (length ser) @ z)) = unwrap L j
       \<and> (json_at last_config_path j = None \<longrightarrow>
            decode_vpn_url L (vpn_token (be32 (length ser) @ z)) = Inr j)"
  using compressed_json_prefixed[OF assms]
  by (simp add: decode_vpn_url_token payload_json_def unwrap_no_path)

theorem decode_vpn_url_compressed_witness:
  "loads_utf8 example_lib (ascii_bytes example_json_text) = Inr (JObject [(''a'', JInt 1)])
   \<and> length (ascii_bytes example_json_text) < 2 ^ 32
   \<and> zlib_decompress example_lib example_zlib_stream = Some (ascii_bytes example_json_text)
   \<and> decode_vpn_url example_lib (vpn_token (be32 8 @ example_zlib_stream))
       = Inr (JObject [(''a'', JInt 1)])"
proof -
  have l: "length (ascii_bytes example_json_text) < 2 ^ 32"
    by (simp add: example_length)
  from decode_vpn_url_compressed[OF example_loads l example_zlib] l
  show ?thesis
    by (simp add: example_loads example_zlib example_length
        unwrap_no_path[OF example_no_last_config])
qed

text \<open>
  The claim C2 as the specification states it, a raw DEFLATE stream after the length,
  fails: the stream that inflates to \<^verbatim>\<open>{"a": 1}\<close> is no zlib stream, the compressed
  reading is refused at its header, the buffer is no JSON text either, and the token
  \<^verbatim>\<open>vpn://AAAACKtWSlSyUjCsBQA=\<close> decodes to an error.
\<close>

theorem decode_vpn_url_raw_deflate_counterexample:
  "raw_inflate example_lib example_deflate = Some (ascii_bytes example_json_text, [])
   \<and> loads_utf8 example_lib (ascii_bytes example_json_text) = Inr (JObject [(''a'', JInt 1)])
   \<and> decode_vpn_url example_lib
         (vpn_token (be32 (length (ascii_bytes example_json_text)) @ example_deflate))
       = Inl (ValueError ''JSON decode error'')"
  by (simp add: example_loads example_length decode_vpn_url_token example_raw_deflate)
     (simp add: example_lib_def example_deflate_def)

lemma example_nested_isascii: "\<forall>c \<in> set example_nested_text. isascii c"
  by (simp add: example_nested_text_def isascii_def)

lemma example_nested_loads:
  "loads_utf8 example_lib (ascii_bytes example_nested_text) = Inr example_nested"
  using example_nested_isascii
  by (simp add: loads_utf8_def decode_utf8_ascii)
     (simp add: example_lib_def example_nested_text_def example_json_text_def)

lemma example_nested_not_compressed:
  "compressed_json example_lib (ascii_bytes example_nested_text) = Inl ZlibError"
  by (simp add: compressed_json_def zlib_decompress_def ascii_bytes_def example_nested_text_def
      byte_of_char_def)

text \<open>
  C3, as the code has it. For bytes \<open>ser\<close> that \<^verbatim>\<open>json.loads\<close> reads as \<open>j\<close> and whose
  compressed reading raises an exception that line 48 catches, the token of \<open>ser\<close> alone
  decodes by the fallback of line 51: lines 34 to 53 yield \<open>j\<close>, and the whole function
  yields \<open>unwrap\<close> of it, which is \<open>j\<close> itself when \<open>j\<close> has no path
  \<^verbatim>\<open>containers[0].xray.last_config\<close>.
\<close>

theorem decode_vpn_url_bare:
  assumes "loads_utf8 L ser = Inr j" and "compressed_json L ser = Inl e" and "fallback_catches e"
  shows "payload_json L ser = Inr j
       \<and> decode_vpn_url L (vpn_token ser) = unwrap L j
       \<and> (json_at last_config_path j = None \<longrightarrow> decode_vpn_url L (vpn_token ser) = Inr j)"
  using assms
  by (simp add: decode_vpn_url_token payload_json_def unwrap_no_path)

theorem decode_vpn_url_bare_witness:
  "loads_utf8 example_lib (ascii_bytes example_json_text) = Inr (JObject [(''a'', JInt 1)])
   \<and> compressed_json example_lib (ascii_bytes example_json_text) = Inl ZlibError
   \<and> fallback_catches ZlibError
   \<and> decode_vpn_url example_lib (vpn_token (ascii_bytes example_json_text))
       = Inr (JObject [(''a'', JInt 1)])"
proof -
  have c: "fallback_catches ZlibError" by (simp add: fallback_catches_def)
  from decode_vpn_url_bare[OF example_loads example_bare_not_compressed c]
  show ?thesis
    by (simp add: example_loads example_bare_not_compressed c
        unwrap_no_path[OF example_no_last_config])
qed

text \<open>
  The claim C3 as the specification states it, that the token of the bare serialization
  of \<open>j\<close> decodes to \<open>j\<close> for every \<open>j\<close>, fails: lines 55 to 63 replace a value that holds
  a nested configuration by that configuration. The text \<open>example_nested_text\<close> is read
  by the fallback as \<open>example_nested\<close>, whose \<^verbatim>\<open>last_config\<close> is the text \<^verbatim>\<open>1\<close>, and its token
  decodes to the number 1.
\<close>

theorem decode_vpn_url_nested_counterexample:
  "loads_utf8 example_lib (ascii_bytes example_nested_text) = Inr example_nested
   \<and> compressed_json example_lib (ascii_bytes example_nested_text) = Inl ZlibError
   \<and> payload_json example_lib (ascii_bytes example_nested_text) = Inr example_nested
   \<and> decode_vpn_url example_lib (vpn_token (ascii_bytes example_nested_text)) = Inr (JInt 1)
   \<and> Inr (JInt 1) \<noteq> (Inr example_nested :: py_exception + json)"
proof -
  have p: "payload_json example_lib (ascii_bytes example_nested_text) = Inr example_nested"
    by (simp add: payload_json_def example_nested_not_compressed example_nested_loads
        fallback_catches_def)
  have u: "unwrap example_lib example_nested = Inr (JInt 1)"
    using unwrap_path[OF example_nested_path, of example_lib] by (simp add: example_loads_1)
  have d: "decode_vpn_url example_lib (vpn_token (ascii_bytes example_nested_text)) = Inr (JInt 1)"
    by (simp add: decode_vpn_url_token p u)
  have n: "Inr (JInt 1) \<noteq> (Inr example_nested :: py_exception + json)"
    by (simp add: example_nested_def)
  from example_nested_loads example_nested_not_compressed p d n show ?thesis by simp
qed

section \<open>Properties of \<^verbatim>\<open>from_vless_url\<close>\<close>

lemma from_vless_url_InrE:
  assumes "from_vless_url L uri = Inr cfg"
  obtains parsed port where "urlsplit L uri = Inr parsed"
    and "url_port (url_netloc parsed) = Inr (Some port)"
    and "cfg = vless_config (opt_str (url_username (url_netloc parsed)))
                 (opt_str (url_hostname (url_netloc parsed))) (int port)
                 (query_get (parse_qsl L (url_query parsed)) ''flow'' [])
                 (query_get (parse_qsl L (url_query parsed)) ''type'' ''tcp'')
                 (query_get (parse_qsl L (url_query parsed)) ''security'' ''none'')
                 (query_get (parse_qsl L (url_query parsed)) ''sni'' [])
                 (query_get (parse_qsl L (url_query parsed)) ''fp'' [])
                 (query_get (parse_qsl L (url_query parsed)) ''pbk'' [])
                 (query_get (parse_qsl L (url_query parsed)) ''sid'' [])
                 (query_get (parse_qsl L (url_query parsed)) ''spx'' [])"
  using assms unfolding from_vless_url_def
  by (auto elim!: bindE_E simp: Let_def split: option.splits)

lemma vless_config_paths:
  "json_at (vnext_path @ [Key ''port'']) (vless_config uuid address port fl nw sec sn fp pk sid spx) = Some (JInt port)"
  "json_at (vnext_path @ [Key ''address'']) (vless_config uuid address port fl nw sec sn fp pk sid spx) = Some address"
  "json_at (user_path @ [Key ''id'']) (vless_config uuid address port fl nw sec sn fp pk sid spx) = Some uuid"
  by (simp_all add: vless_config_def vnext_path_def user_path_def)

text \<open>
  C5, as the code has it. For a URL that \<^verbatim>\<open>urlparse\<close> accepts: without a port
  \<^verbatim>\<open>from_vless_url\<close> fails with the \<open>TypeError\<close> of \<^verbatim>\<open>int(None)\<close>; with a port that is not all ASCII
  digits it fails with a \<open>ValueError\<close>; with a port of digits (at most 4300 of them) it
  returns a configuration whose port is that number when the number is at most 65535, and
  fails with the \<open>ValueError\<close> of the range check of \<^verbatim>\<open>parsed.port\<close> otherwise.
\<close>

theorem from_vless_url_port:
  assumes "urlsplit L uri = Inr parsed"
  shows "(hostinfo_port (url_netloc parsed) = None \<longrightarrow> from_vless_url L uri = Inl TypeError)
       \<and> (\<forall>p. hostinfo_port (url_netloc parsed) = Some p \<and> \<not> list_all isdigit_ascii p \<longrightarrow>
             from_vless_url L uri = Inl (ValueError ''Port could not be cast to integer value''))
       \<and> (\<forall>p. hostinfo_port (url_netloc parsed) = Some p \<and> list_all isdigit_ascii p
               \<and> length p \<le> 4300 \<and> int_of_digits p > 65535 \<longrightarrow>
             from_vless_url L uri = Inl (ValueError ''Port out of range 0-65535''))
       \<and> (\<forall>p. hostinfo_port (url_netloc parsed) = Some p \<and> list_all isdigit_ascii p
               \<and> length p \<le> 4300 \<and> int_of_digits p \<le> 65535 \<longrightarrow>
             (\<exists>cfg. from_vless_url L uri = Inr cfg
                \<and> json_at (vnext_path @ [Key ''port'']) cfg = Some (JInt (int (int_of_digits p)))))"
  using assms
  by (auto simp: from_vless_url_def url_port_def Let_def vless_config_paths)

lemma urlsplit_Inl: "urlsplit L uri = Inl e \<Longrightarrow> from_vless_url L uri = Inl e"
  by (simp add: from_vless_url_def)

lemmas url_defs = urlsplit_def clean_url_def split_scheme_def check_brackets_def split_rest_def before_first_def after_first_def before_last_def
  after_last_def isalpha_ascii_def scheme_chars_def netloc_char_def lower_def lower_char_def
  unsafe_url_byte_def
  url_username_def url_hostname_def hostinfo_host_def hostinfo_port_def url_port_def
  isdigit_ascii_def int_of_digits_def

lemma example_split_70000:
  "urlsplit example_lib ''vless://u@h:70000''
     = Inr \<lparr>url_scheme = ''vless'', url_netloc = ''u@h:70000'', url_path = [], url_query = [],
            url_fragment = []\<rparr>"
  by (simp add: url_defs Let_def)

lemma example_port_70000:
  "from_vless_url example_lib ''vless://u@h:70000'' = Inl (ValueError ''Port out of range 0-65535'')"
  by (simp add: from_vless_url_def example_split_70000) (simp add: url_defs)

lemma example_from:
  "from_vless_url example_lib ''vless://b831381d@Example.COM:443?type=ws&security=tls&sni=sni.example#home''
     = Inr (vless_config (JString ''b831381d'') (JString ''example.com'') 443 [] ''ws'' ''tls'' ''sni.example'' [] [] [] [])"
  by (simp add: from_vless_url_def url_defs Let_def opt_str_def parse_qsl_def parse_field_def query_get_def
      unquote_plus_def unquote_def)
theorem from_vless_url_port_witness:
  "urlsplit example_lib ''vless://u@h''
     = Inr \<lparr>url_scheme = ''vless'', url_netloc = ''u@h'', url_path = [], url_query = [],
            url_fragment = []\<rparr>
   \<and> hostinfo_port ''u@h'' = None
   \<and> from_vless_url example_lib ''vless://u@h'' = Inl TypeError
   \<and> urlsplit example_lib ''vless://u@h:443?type=ws''
     = Inr \<lparr>url_scheme = ''vless'', url_netloc = ''u@h:443'', url_path = [], url_query = ''type=ws'',
            url_fragment = []\<rparr>
   \<and> hostinfo_port ''u@h:443'' = Some ''443'' \<and> list_all isdigit_ascii ''443''
   \<and> length ''443'' \<le> 4300 \<and> int_of_digits ''443'' \<le> 65535
   \<and> (\<exists>cfg. from_vless_url example_lib ''vless://u@h:443?type=ws'' = Inr cfg
          \<and> json_at (vnext_path @ [Key ''port'']) cfg = Some (JInt 443))"
proof -
  have a: "urlsplit example_lib ''vless://u@h''
     = Inr \<lparr>url_scheme = ''vless'', url_netloc = ''u@h'', url_path = [], url_query = [],
            url_fragment = []\<rparr>"
    by (simp add: url_defs Let_def)
  have b: "urlsplit example_lib ''vless://u@h:443?type=ws''
     = Inr \<lparr>url_scheme = ''vless'', url_netloc = ''u@h:443'', url_path = [], url_query = ''type=ws'',
            url_fragment = []\<rparr>"
    by (simp add: url_defs Let_def)
  have pa: "hostinfo_port ''u@h'' = None"
    by (simp add: url_defs)
  have pb: "hostinfo_port ''u@h:443'' = Some ''443''" "list_all isdigit_ascii ''443''"
    "length ''443'' \<le> 4300" "int_of_digits ''443'' = 443"
    by (simp_all add: url_defs)
  from from_vless_url_port[OF a] pa
  have 1: "from_vless_url example_lib ''vless://u@h'' = Inl TypeError" by simp
  from from_vless_url_port[OF b] pb
  have 2: "\<exists>cfg. from_vless_url example_lib ''vless://u@h:443?type=ws'' = Inr cfg
          \<and> json_at (vnext_path @ [Key ''port'']) cfg = Some (JInt 443)" by simp
  from a b pa pb 1 2 show ?thesis by simp
qed

text \<open>
  The claim C5 as the specification states it, every numeric port is carried into the
  configuration, fails at port 70000.
\<close>

theorem from_vless_url_port_counterexample:
  "hostinfo_port ''u@h:70000'' = Some ''70000'' \<and> list_all isdigit_ascii ''70000''
   \<and> from_vless_url example_lib ''vless://u@h:70000'' = Inl (ValueError ''Port out of range 0-65535'')"
  by (simp add: example_port_70000) (simp add: url_defs)

lemma while_notin:
  "c \<notin> set s \<Longrightarrow> takeWhile (\<lambda>x. x \<noteq> c) s = s"
  "c \<notin> set s \<Longrightarrow> dropWhile (\<lambda>x. x \<noteq> c) s = []"
  by (induction s) auto

lemma to_vless_url_prefix:
  assumes "snd (to_vless_url cfg ev) = Inr url"
    and "json_at (user_path @ [Key ''id'']) cfg = Some uuid"
    and "json_at (vnext_path @ [Key ''address'']) cfg = Some address"
  shows "\<exists>rest. url = ''vless://'' @ py_str uuid @ ''@'' @ py_str address @ rest"
proof -
  from assms(1) obtain a body where q: "vless_url_query cfg = Inr (a, body)"
    and u: "url = body @ ''#'' @ display_name a ev"
    by (rule to_vless_url_InrE)
  from vless_url_query_Inr[OF q] assms(2,3) u show ?thesis by auto
qed

text \<open>
  C10, as the code has it. The address that \<^verbatim>\<open>from_vless_url\<close> stores is the host of the URL
  with the part before its first \<^verbatim>\<open>%\<close> in lower case and the rest, the zone of a scoped
  address, as written; for a host without \<^verbatim>\<open>%\<close> it is the host in lower case. The URL that
  \<^verbatim>\<open>to_vless_url\<close> builds from the configuration has that address after the \<^verbatim>\<open>@\<close>.
\<close>

theorem from_vless_url_address:
  assumes "from_vless_url L uri = Inr cfg" and "urlsplit L uri = Inr parsed"
    and "hostinfo_host (url_netloc parsed) = h" and "h \<noteq> []"
  shows "json_at (vnext_path @ [Key ''address'']) cfg
           = Some (JString (lower (before_first CHR ''%'' h) @ dropWhile (\<lambda>c. c \<noteq> CHR ''%'') h))
       \<and> (CHR ''%'' \<notin> set h \<longrightarrow>
            json_at (vnext_path @ [Key ''address'']) cfg = Some (JString (lower h)))
       \<and> (\<forall>ev url. snd (to_vless_url cfg ev) = Inr url \<longrightarrow>
            (\<exists>uuid rest. url = ''vless://'' @ uuid @ ''@''
                @ lower (before_first CHR ''%'' h) @ dropWhile (\<lambda>c. c \<noteq> CHR ''%'') h @ rest))"
proof -
  let ?a = "lower (before_first CHR ''%'' h) @ dropWhile (\<lambda>c. c \<noteq> CHR ''%'') h"
  from assms(1) obtain parsed' port where p: "urlsplit L uri = Inr parsed'"
    and c: "cfg = vless_config (opt_str (url_username (url_netloc parsed')))
                 (opt_str (url_hostname (url_netloc parsed'))) (int port)
                 (query_get (parse_qsl L (url_query parsed')) ''flow'' [])
                 (query_get (parse_qsl L (url_query parsed')) ''type'' ''tcp'')
                 (query_get (parse_qsl L (url_query parsed')) ''security'' ''none'')
                 (query_get (parse_qsl L (url_query parsed')) ''sni'' [])
                 (query_get (parse_qsl L (url_query parsed')) ''fp'' [])
                 (query_get (parse_qsl L (url_query parsed')) ''pbk'' [])
                 (query_get (parse_qsl L (url_query parsed')) ''sid'' [])
                 (query_get (parse_qsl L (url_query parsed')) ''spx'' [])"
    by (rule from_vless_url_InrE)
  from p assms(2) have "parsed' = parsed" by simp
  with assms(3,4) have h: "url_hostname (url_netloc parsed') = Some ?a"
    by (simp add: url_hostname_def)
  have 1: "json_at (vnext_path @ [Key ''address'']) cfg = Some (JString ?a)"
    unfolding c by (simp add: vless_config_paths h opt_str_def)
  have 2: "CHR ''%'' \<notin> set h \<Longrightarrow> ?a = lower h"
    by (simp add: before_first_def while_notin)
  have 3: "\<exists>uuid rest. url = ''vless://'' @ uuid @ ''@'' @ ?a @ rest"
    if "snd (to_vless_url cfg ev) = Inr url" for ev url
  proof -
    have i: "json_at (user_path @ [Key ''id'']) cfg = Some (opt_str (url_username (url_netloc parsed')))"
      unfolding c by (simp add: vless_config_paths)
    from to_vless_url_prefix[OF that i 1] show ?thesis by auto
  qed
  from 1 2 3 show ?thesis by auto
qed

lemma example_split:
  "urlsplit example_lib ''vless://b831381d@Example.COM:443?type=ws&security=tls&sni=sni.example#home''
     = Inr \<lparr>url_scheme = ''vless'', url_netloc = ''b831381d@Example.COM:443'', url_path = [],
            url_query = ''type=ws&security=tls&sni=sni.example'', url_fragment = ''home''\<rparr>"
  by (simp add: url_defs Let_def)

theorem from_vless_url_address_witness:
  "from_vless_url example_lib ''vless://b831381d@Example.COM:443?type=ws&security=tls&sni=sni.example#home''
     = Inr (vless_config (JString ''b831381d'') (JString ''example.com'') 443 [] ''ws'' ''tls''
              ''sni.example'' [] [] [] [])
   \<and> hostinfo_host ''b831381d@Example.COM:443'' = ''Example.COM''
   \<and> json_at (vnext_path @ [Key ''address''])
         (vless_config (JString ''b831381d'') (JString ''example.com'') 443 [] ''ws'' ''tls''
              ''sni.example'' [] [] [] [])
       = Some (JString (lower ''Example.COM''))
   \<and> lower ''Example.COM'' = ''example.com''"
proof -
  have h: "hostinfo_host (url_netloc \<lparr>url_scheme = ''vless'', url_netloc = ''b831381d@Example.COM:443'',
      url_path = [], url_query = ''type=ws&security=tls&sni=sni.example'', url_fragment = ''home''\<rparr>)
      = ''Example.COM''"
    by (simp add: url_defs)
  have n: "''Example.COM'' \<noteq> []" by simp
  have l: "lower ''Example.COM'' = ''example.com''" by (simp add: url_defs)
  have p: "CHR ''%'' \<notin> set ''Example.COM''" by simp
  from from_vless_url_address[OF example_from example_split h n] p
  have "json_at (vnext_path @ [Key ''address''])
         (vless_config (JString ''b831381d'') (JString ''example.com'') 443 [] ''ws'' ''tls''
              ''sni.example'' [] [] [] [])
       = Some (JString (lower ''Example.COM''))"
    by blast
  with h l example_from show ?thesis by simp
qed

lemma example_from_zone:
  "from_vless_url example_lib ''vless://u@HOST%ETH0:443''
     = Inr (vless_config (JString ''u'') (JString ''host%ETH0'') 443 [] ''tcp'' ''none'' [] [] [] [] [])"
  by (simp add: from_vless_url_def url_defs Let_def opt_str_def parse_qsl_def parse_field_def query_get_def)

text \<open>
  The claim C10 as the specification states it, the address is the lower-case form of the
  host, fails for a host with a zone: \<^verbatim>\<open>HOST%ETH0\<close> is stored as \<^verbatim>\<open>host%ETH0\<close>.
\<close>

theorem from_vless_url_zone_counterexample:
  "hostinfo_host ''u@HOST%ETH0:443'' = ''HOST%ETH0''
   \<and> from_vless_url example_lib ''vless://u@HOST%ETH0:443''
     = Inr (vless_config (JString ''u'') (JString ''host%ETH0'') 443 [] ''tcp'' ''none'' [] [] [] [] [])
   \<and> lower ''HOST%ETH0'' = ''host%eth0''"
  by (simp add: example_from_zone) (simp add: url_defs)

section \<open>A URL written by \<^verbatim>\<open>to_vless_url\<close>, read back by \<^verbatim>\<open>from_vless_url\<close>\<close>

subsection \<open>The digits of the port\<close>

lemma digit_char_props:
  assumes "d < 10"
  shows "isdigit_ascii (digit_char d)" "(of_char (digit_char d) :: nat) - 48 = d"
proof -
  from assms have "d = 0 \<or> d = 1 \<or> d = 2 \<or> d = 3 \<or> d = 4 \<or> d = 5 \<or> d = 6 \<or> d = 7 \<or> d = 8 \<or> d = 9"
    by arith
  then show "isdigit_ascii (digit_char d)" "(of_char (digit_char d) :: nat) - 48 = d"
    by (auto simp: digit_char_def isdigit_ascii_def)
qed

lemma str_nat_digits: "list_all isdigit_ascii (str_nat n)"
proof (induction n rule: str_nat.induct)
  case (1 n)
  show ?case
  proof (cases "n < 10")
    case True
    then show ?thesis by (subst str_nat.simps) (simp add: digit_char_props)
  next
    case False
    with 1 show ?thesis by (subst str_nat.simps) (simp add: digit_char_props)
  qed
qed

lemma int_of_digits_snoc: "int_of_digits (s @ [c]) = int_of_digits s * 10 + (of_char c - 48)"
  by (simp add: int_of_digits_def)

lemma int_of_digits_str_nat: "int_of_digits (str_nat n) = n"
proof (induction n rule: str_nat.induct)
  case (1 n)
  show ?case
  proof (cases "n < 10")
    case True
    then show ?thesis
      by (subst str_nat.simps) (simp add: digit_char_props int_of_digits_def)
  next
    case False
    with 1 show ?thesis
      by (subst str_nat.simps) (simp add: digit_char_props int_of_digits_snoc)
  qed
qed

lemma length_str_nat: "0 < k \<Longrightarrow> n < 10 ^ k \<Longrightarrow> length (str_nat n) \<le> k"
proof (induction k arbitrary: n)
  case 0
  then show ?case by simp
next
  case (Suc k)
  show ?case
  proof (cases "n < 10")
    case True
    then show ?thesis by (subst str_nat.simps) simp
  next
    case False
    then have k: "0 < k" using Suc.prems by (cases k) auto
    from Suc.prems have "n div 10 < 10 ^ k" by (simp add: less_mult_imp_div_less mult.commute)
    from Suc.IH[OF k this] False show ?thesis by (subst str_nat.simps) simp
  qed
qed

lemma str_nat_nonempty: "str_nat n \<noteq> []"
  by (subst str_nat.simps) simp

lemma str_nat_port:
  assumes "n \<le> 65535"
  shows "length (str_nat n) \<le> 4300"
proof -
  from assms have "n < 10 ^ 5" by simp
  then have "length (str_nat n) \<le> 5" by (intro length_str_nat) simp_all
  then show ?thesis by simp
qed

lemma digit_not_special:
  assumes "isdigit_ascii c"
  shows "netloc_char c" "c \<noteq> CHR ''@''" "c \<noteq> CHR '':''" "c \<noteq> CHR ''[''" "c \<noteq> CHR '']''"
    "c \<noteq> CHR 0x09" "c \<noteq> CHR 0x0D" "c \<noteq> CHR 0x0A"
  using assms by (auto simp: isdigit_ascii_def netloc_char_def)

subsection \<open>Lower case\<close>

text \<open>\<^verbatim>\<open>lower\<close> is idempotent and makes none of the characters that delimit the parts of a
  URL.\<close>

lemma lower_char_facts:
  "lower_char (lower_char c) = lower_char c
   \<and> (lower_char c \<in> set ''/?#[]:@%&+='' \<union> {CHR 0x09, CHR 0x0D, CHR 0x0A} \<longrightarrow> lower_char c = c)"
proof (cases c)
  case (Char b0 b1 b2 b3 b4 b5 b6 b7)
  show ?thesis unfolding Char
    by (cases b0; cases b1; cases b2; cases b3; cases b4; cases b5; cases b6; cases b7;
        simp add: lower_char_def)
qed

subsection \<open>Partitions and splits\<close>

lemma takeWhile_stop: "c \<notin> set xs \<Longrightarrow> takeWhile (\<lambda>x. x \<noteq> c) (xs @ c # ys) = xs"
  by (induction xs) auto

lemma dropWhile_stop: "c \<notin> set xs \<Longrightarrow> dropWhile (\<lambda>x. x \<noteq> c) (xs @ c # ys) = c # ys"
  by (induction xs) auto

lemma before_first_app: "c \<notin> set xs \<Longrightarrow> before_first c (xs @ c # ys) = xs"
  by (simp add: before_first_def takeWhile_stop)

lemma after_first_app: "c \<notin> set xs \<Longrightarrow> after_first c (xs @ c # ys) = ys"
  by (simp add: after_first_def dropWhile_stop)

lemma before_last_app: "c \<notin> set ys \<Longrightarrow> before_last c (xs @ c # ys) = xs"
  using dropWhile_stop[of c "rev ys" "rev xs"] by (simp add: before_last_def)

lemma after_last_app: "c \<notin> set ys \<Longrightarrow> after_last c (xs @ c # ys) = ys"
  using takeWhile_stop[of c "rev ys" "rev xs"] by (simp add: after_last_def)

lemma before_first_notin: "c \<notin> set (before_first c s)"
  by (auto simp: before_first_def dest: set_takeWhileD)

lemma after_last_notin: "c \<notin> set (after_last c s)"
  by (auto simp: after_last_def dest: set_takeWhileD)

lemma set_before_first: "set (before_first c s) \<subseteq> set s"
  by (auto simp: before_first_def dest: set_takeWhileD)

lemma set_after_first: "set (after_first c s) \<subseteq> set s"
  by (auto simp: after_first_def dest: in_set_dropD set_dropWhileD)

lemma set_before_last: "set (before_last c s) \<subseteq> set s"
proof
  fix x assume "x \<in> set (before_last c s)"
  then have "x \<in> set (drop 1 (dropWhile (\<lambda>x. x \<noteq> c) (rev s)))" by (simp add: before_last_def)
  then have "x \<in> set (dropWhile (\<lambda>x. x \<noteq> c) (rev s))" by (rule in_set_dropD)
  then have "x \<in> set (rev s)" by (rule set_dropWhileD)
  then show "x \<in> set s" by simp
qed

lemma set_after_last: "set (after_last c s) \<subseteq> set s"
  by (auto simp: after_last_def dest: set_takeWhileD)

lemma split_on_nonempty: "split_on c s \<noteq> []"
  by (induction s) (auto split: list.splits)

lemma split_on_notin: "c \<notin> set s \<Longrightarrow> split_on c s = [s]"
  by (induction s) auto

lemma split_on_app: "c \<notin> set x \<Longrightarrow> split_on c (x @ c # rest) = x # split_on c rest"
  by (induction x) auto

lemma split_on_parts: "x \<in> set (split_on c s) \<Longrightarrow> c \<notin> set x \<and> set x \<subseteq> set s"
proof (induction s arbitrary: x)
  case Nil
  then show ?case by simp
next
  case (Cons a s)
  show ?case
  proof (cases "a = c")
    case True
    with Cons show ?thesis by auto
  next
    case False
    obtain y ys where y: "split_on c s = y # ys"
      using split_on_nonempty[of c s] by (cases "split_on c s") auto
    with Cons.prems False have "x = a # y \<or> x \<in> set ys" by auto
    then show ?thesis
    proof
      assume "x = a # y"
      with Cons.IH[of y] y False show ?thesis by auto
    next
      assume "x \<in> set ys"
      with Cons.IH[of x] y show ?thesis by auto
    qed
  qed
qed

text \<open>The cases of a URL that \<^verbatim>\<open>urlsplit\<close> accepts.\<close>

lemma split_rest_simps:
  "url_netloc (split_rest s n r) = n" "url_scheme (split_rest s n r) = s"
  by (simp_all add: split_rest_def Let_def)

lemma split_rest_query:
  assumes "\<forall>c \<in> set r. \<not> unsafe_url_byte c"
  shows "\<forall>c \<in> set (url_query (split_rest s n r)). c \<noteq> CHR ''#'' \<and> \<not> unsafe_url_byte c"
  using assms set_after_first[of "CHR ''?''" r]
    set_after_first[of "CHR ''?''" "before_first CHR ''#'' r"]
    set_before_first[of "CHR ''#''" r] before_first_notin[of "CHR ''#''" r]
  by (auto simp: split_rest_def Let_def)

lemma split_scheme_chars:
  "\<forall>c \<in> set (snd (split_scheme (clean_url uri))). \<not> unsafe_url_byte c"
  using set_after_first[of "CHR '':''" "clean_url uri"]
  by (auto simp: split_scheme_def Let_def clean_url_def)

lemma urlsplit_cases:
  assumes "urlsplit L uri = Inr parsed"
  obtains (netloc) sch url where "take 2 url = ''//''"
      "\<forall>c \<in> set url. \<not> unsafe_url_byte c"
      "check_brackets L (takeWhile netloc_char (drop 2 url)) = None"
      "parsed = split_rest sch (takeWhile netloc_char (drop 2 url)) (dropWhile netloc_char (drop 2 url))"
    | (none) sch url where "\<forall>c \<in> set url. \<not> unsafe_url_byte c" "parsed = split_rest sch [] url"
proof (cases "take 2 (snd (split_scheme (clean_url uri))) = ''//''")
  case True
  with assms have "check_brackets L (takeWhile netloc_char (drop 2 (snd (split_scheme (clean_url uri))))) = None"
    and "parsed = split_rest (fst (split_scheme (clean_url uri)))
           (takeWhile netloc_char (drop 2 (snd (split_scheme (clean_url uri)))))
           (dropWhile netloc_char (drop 2 (snd (split_scheme (clean_url uri)))))"
    by (auto simp: urlsplit_def Let_def split: option.splits)
  with True split_scheme_chars[of uri] show ?thesis by (rule netloc)
next
  case False
  with assms have "parsed = split_rest (fst (split_scheme (clean_url uri))) [] (snd (split_scheme (clean_url uri)))"
    by (auto simp: urlsplit_def Let_def)
  with split_scheme_chars[of uri] show ?thesis by (rule none)
qed

text \<open>What \<^verbatim>\<open>urlsplit\<close> leaves in the network location and in the query.\<close>

lemma urlsplit_chars:
  assumes "urlsplit L uri = Inr parsed"
  shows "\<forall>c \<in> set (url_netloc parsed). netloc_char c \<and> \<not> unsafe_url_byte c"
    and "\<forall>c \<in> set (url_query parsed). c \<noteq> CHR ''#'' \<and> \<not> unsafe_url_byte c"
proof -
  from assms have "(\<forall>c \<in> set (url_netloc parsed). netloc_char c \<and> \<not> unsafe_url_byte c)
     \<and> (\<forall>c \<in> set (url_query parsed). c \<noteq> CHR ''#'' \<and> \<not> unsafe_url_byte c)"
  proof (cases rule: urlsplit_cases)
    case (netloc sch url)
    have d: "\<forall>c \<in> set (dropWhile netloc_char (drop 2 url)). \<not> unsafe_url_byte c"
      using netloc(2) by (auto dest: set_dropWhileD in_set_dropD)
    have t: "\<forall>c \<in> set (takeWhile netloc_char (drop 2 url)). netloc_char c \<and> \<not> unsafe_url_byte c"
      using netloc(2) by (auto dest: set_takeWhileD in_set_dropD)
    show ?thesis
      unfolding netloc(4) using t split_rest_query[OF d] by (simp add: split_rest_simps)
  next
    case (none sch url)
    show ?thesis
      unfolding none(2) using split_rest_query[OF none(1)] by (simp add: split_rest_simps)
  qed
  then show "\<forall>c \<in> set (url_netloc parsed). netloc_char c \<and> \<not> unsafe_url_byte c"
    and "\<forall>c \<in> set (url_query parsed). c \<noteq> CHR ''#'' \<and> \<not> unsafe_url_byte c"
    by simp_all
qed

subsection \<open>What \<^verbatim>\<open>to_vless_url\<close> writes for a configuration of \<^verbatim>\<open>from_vless_url\<close>\<close>

lemma vless_url_query_config:
  "vless_url_query (vless_config (JString u) (JString a) p flow network security sni fp pbk sid spx)
     = Inr (JString a,
            ''vless://'' @ u @ ''@'' @ a @ '':'' @ str_int p @ ''?'' @ (''encryption=none''
              @ render_params [(''flow'', flow), (''security'', security), (''sni'', sni),
                   (''fp'', fp), (''pbk'', pbk), (''sid'', sid), (''spx'', spx),
                   (''type'', network)]))"
  by (simp add: vless_url_query_def vless_config_def query_param_def render_params_def)

lemma to_vless_url_config:
  assumes "ev \<noteq> EndOfInput"
  shows "snd (to_vless_url (vless_config (JString u) (JString a) p flow network security sni fp pbk sid spx) ev)
     = Inr (''vless://'' @ u @ ''@'' @ a @ '':'' @ str_int p @ ''?'' @ (''encryption=none''
              @ render_params [(''flow'', flow), (''security'', security), (''sni'', sni),
                   (''fp'', fp), (''pbk'', pbk), (''sid'', sid), (''spx'', spx),
                   (''type'', network)]) @ ''#''
              @ display_name (JString a) ev)"
  using assms unfolding to_vless_url_def vless_url_query_config
  by (cases ev) (simp_all add: get_vless_name_def display_name_def Let_def)

subsection \<open>The query\<close>

lemma unquote_plus_plain:
  assumes "CHR ''%'' \<notin> set s"
  shows "unquote_plus L s = map (\<lambda>c. if c = CHR ''+'' then CHR '' '' else c) s"
  using assms by (auto simp: unquote_plus_def unquote_def)

lemma unquote_plus_id:
  assumes "CHR ''%'' \<notin> set s" "CHR ''+'' \<notin> set s"
  shows "unquote_plus L s = s"
proof -
  have "map (\<lambda>c. if c = CHR ''+'' then CHR '' '' else c) s = s"
    using assms(2) by (induction s) auto
  with assms(1) show ?thesis by (simp add: unquote_plus_plain)
qed

lemma plain_D:
  "plain s \<Longrightarrow> CHR ''&'' \<notin> set s \<and> CHR ''%'' \<notin> set s \<and> CHR ''+'' \<notin> set s \<and> CHR ''#'' \<notin> set s
     \<and> (\<forall>c \<in> set s. \<not> unsafe_url_byte c)"
  by (auto simp: plain_def list_all_iff)

lemma split_on_render:
  assumes "CHR ''&'' \<notin> set x"
    and "\<forall>kv \<in> set kvs. CHR ''&'' \<notin> set (fst kv) \<and> CHR ''&'' \<notin> set (snd kv)"
  shows "split_on CHR ''&'' (x @ render_params kvs)
     = x # map (\<lambda>kv. fst kv @ ''='' @ snd kv) (filter (\<lambda>kv. snd kv \<noteq> []) kvs)"
  using assms
proof (induction kvs arbitrary: x)
  case Nil
  then show ?case by (simp add: render_params_def split_on_notin)
next
  case (Cons kv kvs)
  have r: "render_params (kv # kvs)
     = (if snd kv \<noteq> [] then ''&'' @ fst kv @ ''='' @ snd kv else []) @ render_params kvs"
    by (simp add: render_params_def)
  show ?case
  proof (cases "snd kv = []")
    case True
    with Cons show ?thesis by (simp add: r)
  next
    case False
    from Cons.prems have "CHR ''&'' \<notin> set (fst kv @ ''='' @ snd kv)" by simp
    from Cons.IH[OF this] Cons.prems(2)
    have "split_on CHR ''&'' ((fst kv @ ''='' @ snd kv) @ render_params kvs)
       = (fst kv @ ''='' @ snd kv) # map (\<lambda>kv. fst kv @ ''='' @ snd kv) (filter (\<lambda>kv. snd kv \<noteq> []) kvs)"
      by simp
    with False Cons.prems(1) show ?thesis
      using split_on_app[of "CHR ''&''" x "(fst kv @ ''='' @ snd kv) @ render_params kvs"]
      by (simp add: r)
  qed
qed

lemma parse_field_written:
  assumes "plain k" "plain v" "CHR ''='' \<notin> set k"
  shows "parse_field L (k @ ''='' @ v) = (if v \<noteq> [] then [(k, v)] else [])"
proof -
  have b: "before_first CHR ''='' (k @ ''='' @ v) = k" and a: "after_first CHR ''='' (k @ ''='' @ v) = v"
    using assms(3) before_first_app[of "CHR ''=''" k v] after_first_app[of "CHR ''=''" k v]
    by simp_all
  have "unquote_plus L k = k" "unquote_plus L v = v"
    using assms(1,2) by (simp_all add: unquote_plus_id plain_D)
  then show ?thesis
    unfolding parse_field_def b a by simp
qed

lemma parse_fields_written:
  assumes "\<forall>kv \<in> set kvs. plain (fst kv) \<and> plain (snd kv) \<and> CHR ''='' \<notin> set (fst kv)"
  shows "concat (map (parse_field L) (map (\<lambda>kv. fst kv @ ''='' @ snd kv) (filter (\<lambda>kv. snd kv \<noteq> []) kvs)))
      = filter (\<lambda>kv. snd kv \<noteq> []) kvs"
  using assms
proof (induction kvs)
  case Nil
  then show ?case by simp
next
  case (Cons kv kvs)
  then have p: "plain (fst kv)" "plain (snd kv)" "CHR ''='' \<notin> set (fst kv)" by simp_all
  have "parse_field L (fst kv @ ''='' @ snd kv) = (if snd kv \<noteq> [] then [kv] else [])"
    by (simp only: parse_field_written[OF p] prod.collapse)
  with Cons show ?case
    by (cases "snd kv = []") (simp_all del: append.simps)
qed

lemma parse_qsl_written:
  assumes "\<forall>kv \<in> set kvs. plain (fst kv) \<and> plain (snd kv) \<and> CHR ''='' \<notin> set (fst kv)"
  shows "parse_qsl L (''encryption=none'' @ render_params kvs)
     = (''encryption'', ''none'') # filter (\<lambda>kv. snd kv \<noteq> []) kvs"
proof -
  have s: "split_on CHR ''&'' (''encryption=none'' @ render_params kvs)
     = ''encryption=none'' # map (\<lambda>kv. fst kv @ ''='' @ snd kv) (filter (\<lambda>kv. snd kv \<noteq> []) kvs)"
    using assms by (intro split_on_render) (auto dest: plain_D)
  have "plain ''encryption''" "plain ''none''"
    by (simp_all add: plain_def unsafe_url_byte_def)
  from parse_field_written[OF this, of L]
  have e: "parse_field L ''encryption=none'' = [(''encryption'', ''none'')]"
    by simp
  have n: "''encryption=none'' @ render_params kvs \<noteq> []" by simp
  show ?thesis
    unfolding parse_qsl_def s using parse_fields_written[OF assms, of L] e n
    by (simp del: append.simps)
qed

lemma map_of_filter_value:
  assumes "distinct (map fst kvs)" "(k, v) \<in> set kvs"
  shows "map_of (filter (\<lambda>kv. snd kv \<noteq> []) kvs) k = (if v \<noteq> [] then Some v else None)"
  using assms
proof (induction kvs)
  case Nil
  then show ?case by simp
next
  case (Cons kv kvs)
  show ?case
  proof (cases "kv = (k, v)")
    case True
    with Cons.prems(1) have "k \<notin> fst ` set kvs" by auto
    then have "map_of (filter (\<lambda>kv. snd kv \<noteq> []) kvs) k = None"
      by (auto simp: map_of_eq_None_iff)
    with True show ?thesis by simp
  next
    case False
    with Cons.prems have in_tl: "(k, v) \<in> set kvs" by auto
    with Cons.prems(1) have "fst kv \<noteq> k" by (cases kv) force
    with Cons.IH in_tl Cons.prems(1) show ?thesis by (cases kv) auto
  qed
qed

lemma query_get_written:
  assumes "distinct (map fst kvs)" "(k, v) \<in> set kvs" "k \<noteq> ''encryption''"
    and "v = [] \<Longrightarrow> d = []"
  shows "query_get ((''encryption'', ''none'') # filter (\<lambda>kv. snd kv \<noteq> []) kvs) k d = v"
  using map_of_filter_value[OF assms(1,2)] assms(3,4)
  by (simp add: query_get_def)

text \<open>The values of a query without \<^verbatim>\<open>%\<close>.\<close>

lemma parse_field_plain:
  assumes "CHR ''%'' \<notin> set f" "CHR ''&'' \<notin> set f" "CHR ''#'' \<notin> set f"
    "\<forall>c \<in> set f. \<not> unsafe_url_byte c" "(k, v) \<in> set (parse_field L f)"
  shows "v \<noteq> [] \<and> plain v"
proof -
  let ?a = "after_first CHR ''='' f"
  from assms(5) have ne: "?a \<noteq> []" and v: "v = unquote_plus L ?a"
    by (auto simp: parse_field_def split: if_splits)
  have sub: "set ?a \<subseteq> set f" by (rule set_after_first)
  with assms(1) have "CHR ''%'' \<notin> set ?a" by auto
  then have m: "v = map (\<lambda>c. if c = CHR ''+'' then CHR '' '' else c) ?a"
    unfolding v by (rule unquote_plus_plain)
  from ne m have "v \<noteq> []" by simp
  moreover have "plain v"
    unfolding plain_def list_all_iff m using sub assms(1-4)
    by (auto simp: unsafe_url_byte_def)
  ultimately show ?thesis by simp
qed

lemma parse_qsl_plain:
  assumes "CHR ''%'' \<notin> set q" "CHR ''#'' \<notin> set q" "\<forall>c \<in> set q. \<not> unsafe_url_byte c"
    "(k, v) \<in> set (parse_qsl L q)"
  shows "v \<noteq> [] \<and> plain v"
proof -
  from assms(4) obtain f where f: "f \<in> set (split_on CHR ''&'' q)" and kv: "(k, v) \<in> set (parse_field L f)"
    by (auto simp: parse_qsl_def split: if_splits)
  from split_on_parts[OF f] have "CHR ''&'' \<notin> set f" "set f \<subseteq> set q" by simp_all
  with assms(1-3) have "CHR ''%'' \<notin> set f" "CHR ''&'' \<notin> set f" "CHR ''#'' \<notin> set f"
    "\<forall>c \<in> set f. \<not> unsafe_url_byte c" by auto
  then show ?thesis using kv by (rule parse_field_plain)
qed

lemma query_get_plain:
  assumes "CHR ''%'' \<notin> set q" "CHR ''#'' \<notin> set q" "\<forall>c \<in> set q. \<not> unsafe_url_byte c"
    and "plain d"
  shows "plain (query_get (parse_qsl L q) k d)"
    and "query_get (parse_qsl L q) k d = [] \<Longrightarrow> d = []"
proof -
  have "query_get (parse_qsl L q) k d = d \<or> (k, query_get (parse_qsl L q) k d) \<in> set (parse_qsl L q)"
    by (auto simp: query_get_def dest: map_of_SomeD split: option.splits)
  then have "query_get (parse_qsl L q) k d = d
     \<or> (query_get (parse_qsl L q) k d \<noteq> [] \<and> plain (query_get (parse_qsl L q) k d))"
    using parse_qsl_plain[OF assms(1-3)] by blast
  with assms(4) show "plain (query_get (parse_qsl L q) k d)"
    and "query_get (parse_qsl L q) k d = [] \<Longrightarrow> d = []" by auto
qed

subsection \<open>The written URL, split\<close>

lemma netloc_text_simps:
  "netloc_text []" "netloc_text (s @ t) = (netloc_text s \<and> netloc_text t)"
  "netloc_text ''@''" "netloc_text '':''"
  by (auto simp: netloc_text_def netloc_char_def unsafe_url_byte_def)

lemma netloc_text_digits: "list_all isdigit_ascii s \<Longrightarrow> netloc_text s"
  by (auto simp: netloc_text_def list_all_iff isdigit_ascii_def netloc_char_def unsafe_url_byte_def)

lemma clean_url_written:
  assumes "\<forall>c \<in> set body. \<not> unsafe_url_byte c"
  shows "clean_url (''vless://'' @ body @ ''#'' @ name)
     = ''vless://'' @ body @ ''#'' @ filter (\<lambda>c. \<not> unsafe_url_byte c) name"
proof -
  have "filter (\<lambda>c. \<not> unsafe_url_byte c) body = body"
    using assms by (simp add: filter_id_conv)
  then show ?thesis
    by (simp add: clean_url_def unsafe_url_byte_def)
qed

lemma split_scheme_written:
  "split_scheme (''vless://'' @ rest) = (''vless'', ''//'' @ rest)"
  by (simp add: split_scheme_def Let_def before_first_def after_first_def isalpha_ascii_def
      scheme_chars_def lower_def lower_char_def)

lemma split_rest_written:
  assumes "CHR ''#'' \<notin> set q"
  shows "split_rest sch n (''?'' @ q @ ''#'' @ name)
     = \<lparr> url_scheme = sch, url_netloc = n, url_path = [], url_query = q, url_fragment = name \<rparr>"
proof -
  have h: "CHR ''#'' \<notin> set (''?'' @ q)" using assms by simp
  have b: "before_first CHR ''#'' (''?'' @ q @ ''#'' @ name) = ''?'' @ q"
    using before_first_app[OF h, of name] by simp
  have a: "after_first CHR ''#'' (''?'' @ q @ ''#'' @ name) = name"
    using after_first_app[OF h, of name] by simp
  have m: "CHR ''#'' \<in> set (''?'' @ q @ ''#'' @ name)" by simp
  have q1: "after_first CHR ''?'' (''?'' @ q) = q" "before_first CHR ''?'' (''?'' @ q) = []"
    by (simp_all add: after_first_def before_first_def)
  have m2: "CHR ''?'' \<in> set (''?'' @ q)" by simp
  show ?thesis
    unfolding split_rest_def Let_def b a if_P[OF m] if_P[OF m2] q1 by simp
qed

lemma urlsplit_written:
  assumes "netloc_text n" "CHR ''#'' \<notin> set q" "\<forall>c \<in> set q. \<not> unsafe_url_byte c"
  shows "urlsplit L (''vless://'' @ n @ ''?'' @ q @ ''#'' @ name)
     = Inr \<lparr> url_scheme = ''vless'', url_netloc = n, url_path = [], url_query = q,
              url_fragment = filter (\<lambda>c. \<not> unsafe_url_byte c) name \<rparr>"
proof -
  let ?name = "filter (\<lambda>c. \<not> unsafe_url_byte c) name"
  have "\<forall>c \<in> set (n @ ''?'' @ q). \<not> unsafe_url_byte c"
    using assms(1,3) by (auto simp: netloc_text_def unsafe_url_byte_def)
  from clean_url_written[OF this, of name]
  have c: "clean_url (''vless://'' @ n @ ''?'' @ q @ ''#'' @ name)
     = ''vless://'' @ (n @ ''?'' @ q @ ''#'' @ ?name)" by simp
  have t: "takeWhile netloc_char (n @ ''?'' @ q @ ''#'' @ ?name) = n"
    using assms(1) by (simp add: netloc_text_def takeWhile_append2 netloc_char_def)
  have d: "dropWhile netloc_char (n @ ''?'' @ q @ ''#'' @ ?name) = ''?'' @ q @ ''#'' @ ?name"
    using assms(1) by (simp add: netloc_text_def dropWhile_append2 netloc_char_def)
  have k: "check_brackets L n = None"
    using assms(1) by (auto simp: check_brackets_def netloc_text_def)
  show ?thesis
    unfolding urlsplit_def c split_scheme_written Let_def fst_conv snd_conv
    using t d k split_rest_written[OF assms(2), of "''vless''" n ?name]
    by simp
qed

subsection \<open>The network location\<close>

lemma lower_special:
  assumes "c \<in> set (lower x)"
    and "c \<in> set ''/?#[]:@%&+='' \<union> {CHR 0x09, CHR 0x0D, CHR 0x0A}"
  shows "c \<in> set x"
proof -
  from assms(1) obtain c' where c': "c' \<in> set x" "c = lower_char c'"
    by (auto simp: lower_def)
  have "lower_char c' \<in> set ''/?#[]:@%&+='' \<union> {CHR 0x09, CHR 0x0D, CHR 0x0A} \<longrightarrow> lower_char c' = c'"
    using lower_char_facts[of c'] by (rule conjunct2)
  moreover have "lower_char c' \<in> set ''/?#[]:@%&+='' \<union> {CHR 0x09, CHR 0x0D, CHR 0x0A}"
    using assms(2) unfolding c'(2) .
  ultimately have "lower_char c' = c'" by (rule mp)
  with c' show ?thesis by simp
qed

lemma lower_lower: "lower (lower x) = lower x"
  using lower_char_facts by (simp add: lower_def)

lemma while_dropWhile:
  assumes "c \<notin> set xs"
  shows "takeWhile (\<lambda>x. x \<noteq> c) (xs @ dropWhile (\<lambda>x. x \<noteq> c) s) = xs"
    and "dropWhile (\<lambda>x. x \<noteq> c) (xs @ dropWhile (\<lambda>x. x \<noteq> c) s) = dropWhile (\<lambda>x. x \<noteq> c) s"
proof -
  have "dropWhile (\<lambda>x. x \<noteq> c) s = [] \<or> (\<exists>ys. dropWhile (\<lambda>x. x \<noteq> c) s = c # ys)"
    using hd_dropWhile[of "\<lambda>x. x \<noteq> c" s] by (cases "dropWhile (\<lambda>x. x \<noteq> c) s") auto
  with assms show "takeWhile (\<lambda>x. x \<noteq> c) (xs @ dropWhile (\<lambda>x. x \<noteq> c) s) = xs"
    and "dropWhile (\<lambda>x. x \<noteq> c) (xs @ dropWhile (\<lambda>x. x \<noteq> c) s) = dropWhile (\<lambda>x. x \<noteq> c) s"
    by (auto simp: takeWhile_stop dropWhile_stop while_notin)
qed

text \<open>The host name \<^verbatim>\<open>parsed.hostname\<close> makes of a host without brackets.\<close>

lemma hostname_text:
  assumes "\<forall>c \<in> set h. netloc_char c \<and> \<not> unsafe_url_byte c"
    and "CHR ''['' \<notin> set h" "CHR '']'' \<notin> set h" "CHR ''@'' \<notin> set h" "CHR '':'' \<notin> set h" "h \<noteq> []"
    and a: "a = lower (before_first CHR ''%'' h) @ dropWhile (\<lambda>c. c \<noteq> CHR ''%'') h"
  shows "netloc_text a" "CHR ''@'' \<notin> set a" "CHR '':'' \<notin> set a" "a \<noteq> []"
    "lower (before_first CHR ''%'' a) @ dropWhile (\<lambda>c. c \<noteq> CHR ''%'') a = a"
proof -
  let ?x = "before_first CHR ''%'' h" and ?y = "dropWhile (\<lambda>c. c \<noteq> CHR ''%'') h"
  have xy: "?x @ ?y = h" by (simp add: before_first_def)
  have special: "c \<in> set h"
    if "c \<in> set a" "c \<in> set ''/?#[]:@%&+='' \<union> {CHR 0x09, CHR 0x0D, CHR 0x0A}" for c
  proof -
    from that(1) have "c \<in> set (lower ?x) \<or> c \<in> set ?y" unfolding a by simp
    then show ?thesis
    proof
      assume "c \<in> set (lower ?x)"
      from lower_special[OF this that(2)] set_before_first[of "CHR ''%''" h] show ?thesis by auto
    next
      assume "c \<in> set ?y"
      then show ?thesis by (rule set_dropWhileD)
    qed
  qed
  have ns: "s \<notin> set a"
    if "s \<in> set ''/?#[]:@%&+='' \<union> {CHR 0x09, CHR 0x0D, CHR 0x0A}" "s \<notin> set h" for s
    using special[of s] that by blast
  have h1: "CHR ''/'' \<notin> set h" "CHR ''?'' \<notin> set h" "CHR ''#'' \<notin> set h"
    "CHR 0x09 \<notin> set h" "CHR 0x0D \<notin> set h" "CHR 0x0A \<notin> set h"
    using assms(1) by (auto simp: netloc_char_def unsafe_url_byte_def)
  have a1: "CHR ''/'' \<notin> set a" "CHR ''?'' \<notin> set a" "CHR ''#'' \<notin> set a"
    "CHR 0x09 \<notin> set a" "CHR 0x0D \<notin> set a" "CHR 0x0A \<notin> set a"
    "CHR ''['' \<notin> set a" "CHR '']'' \<notin> set a"
    by (rule ns, simp, rule h1 assms(2,3))+
  show "netloc_text a"
    unfolding netloc_text_def netloc_char_def unsafe_url_byte_def using a1 by blast
  show "CHR ''@'' \<notin> set a" by (rule ns, simp, rule assms(4))
  show "CHR '':'' \<notin> set a" by (rule ns, simp, rule assms(5))
  have "length a = length h"
    using arg_cong[OF xy, of length] unfolding a lower_def by simp
  with assms(6) show "a \<noteq> []" by auto
  have "CHR ''%'' \<notin> set (lower ?x)"
    using lower_special[of "CHR ''%''" ?x] before_first_notin[of "CHR ''%''" h] by fastforce
  from while_dropWhile[OF this, of h]
  show "lower (before_first CHR ''%'' a) @ dropWhile (\<lambda>c. c \<noteq> CHR ''%'') a = a"
    unfolding a before_first_def by (simp only: lower_lower)
qed

text \<open>The parts of the network location \<^verbatim>\<open>to_vless_url\<close> writes.\<close>

lemma netloc_written:
  assumes "CHR '':'' \<notin> set u" "CHR ''@'' \<notin> set a" "CHR '':'' \<notin> set a" "CHR ''['' \<notin> set a"
    and "a \<noteq> []" "lower (before_first CHR ''%'' a) @ dropWhile (\<lambda>c. c \<noteq> CHR ''%'') a = a"
    and "p \<le> 65535"
  shows "url_username (u @ ''@'' @ a @ '':'' @ str_nat p) = Some u"
    and "url_hostname (u @ ''@'' @ a @ '':'' @ str_nat p) = Some a"
    and "url_port (u @ ''@'' @ a @ '':'' @ str_nat p) = Inr (Some p)"
proof -
  let ?d = "str_nat p"
  let ?hi = "a @ '':'' @ ?d"
  have dg: "list_all isdigit_ascii ?d" by (rule str_nat_digits)
  then have d: "CHR ''@'' \<notin> set ?d" "CHR ''['' \<notin> set ?d"
    unfolding list_all_iff using digit_not_special(2,4) by blast+
  have hi: "CHR ''@'' \<notin> set ?hi" "CHR ''['' \<notin> set ?hi" using assms(2,4) d by (simp_all del: str_nat.simps)
  have bl: "before_last CHR ''@'' (u @ ''@'' @ ?hi) = u"
    and al: "after_last CHR ''@'' (u @ ''@'' @ ?hi) = ?hi"
    using before_last_app[OF hi(1), of u] after_last_app[OF hi(1), of u]
    by (simp_all del: str_nat.simps)
  have bu: "before_first CHR '':'' u = u"
    using assms(1) by (simp add: before_first_def while_notin)
  have bf: "before_first CHR '':'' ?hi = a" and af: "after_first CHR '':'' ?hi = ?d"
    using before_first_app[OF assms(3), of ?d] after_first_app[OF assms(3), of ?d]
    by (simp_all del: str_nat.simps)
  have m: "CHR ''@'' \<in> set (u @ ''@'' @ ?hi)" by simp
  show "url_username (u @ ''@'' @ ?hi) = Some u"
    unfolding url_username_def if_P[OF m] bl bu ..
  have host: "hostinfo_host (u @ ''@'' @ ?hi) = a"
    unfolding hostinfo_host_def Let_def al if_not_P[OF hi(2)] bf ..
  show "url_hostname (u @ ''@'' @ ?hi) = Some a"
    unfolding url_hostname_def Let_def host using assms(5,6) by simp
  have port: "hostinfo_port (u @ ''@'' @ ?hi) = Some ?d"
    unfolding hostinfo_port_def Let_def al if_not_P[OF hi(2)] af
    using str_nat_nonempty[of p] by (simp del: str_nat.simps)
  show "url_port (u @ ''@'' @ ?hi) = Inr (Some p)"
    unfolding url_port_def port
    using dg str_nat_port[OF assms(7)] assms(7)
    by (simp add: int_of_digits_str_nat del: str_nat.simps)
qed

text \<open>The parts of the network location of the URL that was read.\<close>

lemma netloc_read:
  assumes "\<forall>c \<in> set n. netloc_char c \<and> \<not> unsafe_url_byte c"
    and "CHR ''['' \<notin> set n" "CHR '']'' \<notin> set n" "CHR ''@'' \<in> set n" "hostinfo_host n \<noteq> []"
  obtains u a where "url_username n = Some u" "url_hostname n = Some a"
    "netloc_text u" "netloc_text a" "CHR '':'' \<notin> set u" "CHR ''@'' \<notin> set a" "CHR '':'' \<notin> set a"
    "a \<noteq> []" "lower (before_first CHR ''%'' a) @ dropWhile (\<lambda>c. c \<noteq> CHR ''%'') a = a"
proof -
  let ?u = "before_first CHR '':'' (before_last CHR ''@'' n)"
  let ?hi = "after_last CHR ''@'' n"
  let ?h = "before_first CHR '':'' ?hi"
  let ?a = "lower (before_first CHR ''%'' ?h) @ dropWhile (\<lambda>c. c \<noteq> CHR ''%'') ?h"
  have su: "set ?u \<subseteq> set n"
    using set_before_first[of "CHR '':''" "before_last CHR ''@'' n"] set_before_last[of "CHR ''@''" n]
    by blast
  have shi: "set ?hi \<subseteq> set n" by (rule set_after_last)
  have sh: "set ?h \<subseteq> set ?hi" by (rule set_before_first)
  from shi assms(2) have nb: "CHR ''['' \<notin> set ?hi" by blast
  then have host: "hostinfo_host n = ?h" by (simp add: hostinfo_host_def Let_def)
  have 1: "url_username n = Some ?u" using assms(4) by (simp add: url_username_def)
  have 2: "url_hostname n = Some ?a"
    using assms(5) unfolding url_hostname_def Let_def host by simp
  have 3: "netloc_text ?u" unfolding netloc_text_def using su assms(1-3) by blast
  have 5: "CHR '':'' \<notin> set ?u" by (rule before_first_notin)
  have h: "\<forall>c \<in> set ?h. netloc_char c \<and> \<not> unsafe_url_byte c"
    "CHR ''['' \<notin> set ?h" "CHR '']'' \<notin> set ?h" "CHR ''@'' \<notin> set ?h" "CHR '':'' \<notin> set ?h"
    "?h \<noteq> []"
    using sh shi assms(1-3) after_last_notin[of "CHR ''@''" n] before_first_notin[of "CHR '':''" ?hi]
      assms(5) host by auto
  note t = hostname_text[OF h refl]
  from 1 2 3 t(1) 5 t(2-5) show ?thesis by (rule that)
qed

subsection \<open>Reading what was written\<close>

lemma render_params_simps:
  "render_params [] = []"
  "render_params (kv # kvs)
     = (if snd kv \<noteq> [] then ''&'' @ fst kv @ ''='' @ snd kv else []) @ render_params kvs"
  by (simp_all add: render_params_def)

lemma separators_safe: "\<not> unsafe_url_byte CHR ''&''" "\<not> unsafe_url_byte CHR ''=''"
  by (simp_all add: unsafe_url_byte_def)

lemma render_params_chars:
  assumes "\<forall>kv \<in> set kvs. plain (fst kv) \<and> plain (snd kv)"
  shows "CHR ''#'' \<notin> set (render_params kvs)
     \<and> (\<forall>c \<in> set (render_params kvs). \<not> unsafe_url_byte c)"
  using assms
proof (induction kvs)
  case Nil
  show ?case by (simp add: render_params_simps)
next
  case (Cons kv kvs)
  then have ih: "CHR ''#'' \<notin> set (render_params kvs)"
    "\<forall>c \<in> set (render_params kvs). \<not> unsafe_url_byte c" by simp_all
  from Cons.prems have "plain (fst kv)" "plain (snd kv)" by simp_all
  then have k: "CHR ''#'' \<notin> set (fst kv)" "\<forall>c \<in> set (fst kv). \<not> unsafe_url_byte c"
    and v: "CHR ''#'' \<notin> set (snd kv)" "\<forall>c \<in> set (snd kv). \<not> unsafe_url_byte c"
    by (simp_all add: plain_D)
  show ?case
    unfolding render_params_simps using ih k v separators_safe by (cases "snd kv = []") auto
qed

lemma url_port_range:
  assumes "url_port n = Inr (Some p)"
  shows "p \<le> 65535"
  using assms by (auto simp: url_port_def split: option.splits if_splits)

lemma urlsplit_brackets:
  assumes "urlsplit L uri = Inr parsed" "CHR ''['' \<notin> set (url_netloc parsed)"
  shows "CHR '']'' \<notin> set (url_netloc parsed)"
  using assms(1)
proof (cases rule: urlsplit_cases)
  case (netloc sch url)
  from netloc(3) assms(2) show ?thesis
    unfolding netloc(4) split_rest_simps check_brackets_def by (simp split: if_splits)
next
  case (none sch url)
  then show ?thesis by (simp add: split_rest_simps)
qed

lemma from_vless_url_written:
  assumes u: "netloc_text u" "CHR '':'' \<notin> set u"
    and a: "netloc_text a" "CHR ''@'' \<notin> set a" "CHR '':'' \<notin> set a" "a \<noteq> []"
      "lower (before_first CHR ''%'' a) @ dropWhile (\<lambda>c. c \<noteq> CHR ''%'') a = a"
    and p: "p \<le> 65535"
    and v: "plain flow" "plain network" "plain security" "plain sni" "plain fp" "plain pbk"
      "plain sid" "plain spx"
    and d: "network \<noteq> []" "security \<noteq> []"
  shows "from_vless_url L (''vless://'' @ u @ ''@'' @ a @ '':'' @ str_nat p @ ''?''
            @ (''encryption=none''
               @ render_params [(''flow'', flow), (''security'', security), (''sni'', sni),
                   (''fp'', fp), (''pbk'', pbk), (''sid'', sid), (''spx'', spx),
                   (''type'', network)]) @ ''#'' @ name)
     = Inr (vless_config (JString u) (JString a) (int p) flow network security sni fp pbk sid spx)"
proof -
  let ?kvs = "[(''flow'', flow), (''security'', security), (''sni'', sni),
               (''fp'', fp), (''pbk'', pbk), (''sid'', sid), (''spx'', spx), (''type'', network)]"
  let ?n = "u @ ''@'' @ a @ '':'' @ str_nat p"
  let ?q = "''encryption=none'' @ render_params ?kvs"
  have keys: "plain ''flow''" "plain ''security''" "plain ''sni''" "plain ''fp''" "plain ''pbk''"
    "plain ''sid''" "plain ''spx''" "plain ''type''"
    by (simp_all add: plain_def unsafe_url_byte_def)
  have kvs: "\<forall>kv \<in> set ?kvs. plain (fst kv) \<and> plain (snd kv) \<and> CHR ''='' \<notin> set (fst kv)"
    using v keys by simp
  then have "\<forall>kv \<in> set ?kvs. plain (fst kv) \<and> plain (snd kv)" by blast
  from render_params_chars[OF this]
  have q: "CHR ''#'' \<notin> set ?q" "\<forall>c \<in> set ?q. \<not> unsafe_url_byte c"
    by (auto simp: unsafe_url_byte_def)
  have n: "netloc_text ?n"
    using u(1) a(1) netloc_text_digits[OF str_nat_digits[of p]]
    by (simp only: netloc_text_simps)
  have split: "urlsplit L (''vless://'' @ ?n @ ''?'' @ ?q @ ''#'' @ name)
     = Inr \<lparr> url_scheme = ''vless'', url_netloc = ?n, url_path = [], url_query = ?q,
              url_fragment = filter (\<lambda>c. \<not> unsafe_url_byte c) name \<rparr>"
    using n q by (rule urlsplit_written)
  have "CHR ''['' \<notin> set a" using a(1) by (auto simp: netloc_text_def)
  note nl = netloc_written[OF u(2) a(2,3) this a(4,5) p]
  have params: "parse_qsl L ?q = (''encryption'', ''none'') # filter (\<lambda>kv. snd kv \<noteq> []) ?kvs"
    using kvs by (rule parse_qsl_written)
  have dist: "distinct (map fst ?kvs)" by simp
  have g: "query_get (parse_qsl L ?q) ''flow'' [] = flow"
    "query_get (parse_qsl L ?q) ''type'' ''tcp'' = network"
    "query_get (parse_qsl L ?q) ''security'' ''none'' = security"
    "query_get (parse_qsl L ?q) ''sni'' [] = sni"
    "query_get (parse_qsl L ?q) ''fp'' [] = fp"
    "query_get (parse_qsl L ?q) ''pbk'' [] = pbk"
    "query_get (parse_qsl L ?q) ''sid'' [] = sid"
    "query_get (parse_qsl L ?q) ''spx'' [] = spx"
    unfolding params using d by (intro query_get_written[OF dist]; simp)+
  have "from_vless_url L (''vless://'' @ ?n @ ''?'' @ ?q @ ''#'' @ name)
     = Inr (vless_config (JString u) (JString a) (int p) flow network security sni fp pbk sid spx)"
    unfolding from_vless_url_def split bindE_simps split_result.simps nl option.case Let_def g
      opt_str_def ..
  then show ?thesis by (simp del: str_nat.simps)
qed

subsection \<open>The round trip\<close>

lemma plain_defaults: "plain []" "plain ''tcp''" "plain ''none''"
  by (simp_all add: plain_def unsafe_url_byte_def)



lemma example_written:
  "snd (to_vless_url (vless_config (JString ''b831381d'') (JString ''example.com'') 443 [] ''ws'' ''tls''
          ''sni.example'' [] [] [] []) (Line ''home''))
     = Inr ''vless://b831381d@example.com:443?encryption=none&security=tls&sni=sni.example&type=ws#home''"
proof -
  have s: "strip ''home'' = ''home''" by (simp add: strip_def isspace_def)
  have "display_name (JString ''example.com'') (Line ''home'') = ''home''"
    by (simp add: display_name_def s)
  then show ?thesis
    using to_vless_url_config[of "Line ''home''" "''b831381d''" "''example.com''" 443 "[]" "''ws''"
        "''tls''" "''sni.example''" "[]" "[]" "[]" "[]"]
    by (simp add: render_params_def str_int_def digit_char_def)
qed


lemma example_from_escaped:
  "from_vless_url example_lib ''vless://u@h:1?sni=a%26b''
     = Inr (vless_config (JString ''u'') (JString ''h'') 1 [] ''tcp'' ''none'' ''a&b'' [] [] [] [])"
proof -
  have amp: "(38 :: byte) = byte_of_char CHR ''&''" by (simp add: byte_of_char_def)
  have "unquote_plus example_lib ''a%26b'' = ''a&b''"
    by (simp add: unquote_plus_def unquote_def isascii_def unquote_to_bytes_def unquote_item_def
        hex_value_def ascii_bytes_def decode_utf8_replace_def amp)
       (simp add: byte_of_char_def)
  moreover have "unquote_plus example_lib ''sni'' = ''sni''" by (simp add: unquote_plus_id)
  ultimately show ?thesis
    by (simp add: from_vless_url_def url_defs Let_def opt_str_def parse_qsl_def parse_field_def
        query_get_def)
qed

lemma example_written_escaped:
  "snd (to_vless_url (vless_config (JString ''u'') (JString ''h'') 1 [] ''tcp'' ''none'' ''a&b'' [] [] [] [])
          (Line ''n''))
     = Inr ''vless://u@h:1?encryption=none&security=none&sni=a&b&type=tcp#n''"
proof -
  have s: "strip ''n'' = ''n''" by (simp add: strip_def isspace_def)
  have "display_name (JString ''h'') (Line ''n'') = ''n''"
    by (simp add: display_name_def s)
  then show ?thesis
    using to_vless_url_config[of "Line ''n''" "''u''" "''h''" 1 "[]" "''tcp''"
        "''none''" "''a&b''" "[]" "[]" "[]" "[]"]
    by (simp add: render_params_def str_int_def digit_char_def)
qed

lemma example_from_cut:
  "from_vless_url example_lib ''vless://u@h:1?encryption=none&security=none&sni=a&b&type=tcp#n''
     = Inr (vless_config (JString ''u'') (JString ''h'') 1 [] ''tcp'' ''none'' ''a'' [] [] [] [])"
  by (simp add: from_vless_url_def url_defs Let_def opt_str_def parse_qsl_def parse_field_def
      query_get_def unquote_plus_def unquote_def)



subsection \<open>The other conditions of the round trip\<close>

text \<open>
  The conditions of \<open>vless_round_trip\<close> on the network location are needed as well. A URL
  without a user name is read with the user id \<^verbatim>\<open>None\<close>, which \<^verbatim>\<open>to_vless_url\<close> writes as the
  text \<^verbatim>\<open>None\<close>; the host of a URL with an IPv6 address in brackets is read without the
  brackets and written without them, and the URL written is refused.
\<close>

lemma round_trip_without_user:
  "from_vless_url example_lib ''vless://h:1''
     = Inr (vless_config JNull (JString ''h'') 1 [] ''tcp'' ''none'' [] [] [] [] [])
   \<and> snd (to_vless_url (vless_config JNull (JString ''h'') 1 [] ''tcp'' ''none'' [] [] [] [] [])
            (Line ''n''))
       = Inr ''vless://None@h:1?encryption=none&security=none&type=tcp#n''
   \<and> from_vless_url example_lib ''vless://None@h:1?encryption=none&security=none&type=tcp#n''
       = Inr (vless_config (JString ''None'') (JString ''h'') 1 [] ''tcp'' ''none'' [] [] [] [] [])"
proof -
  have a: "from_vless_url example_lib ''vless://h:1''
     = Inr (vless_config JNull (JString ''h'') 1 [] ''tcp'' ''none'' [] [] [] [] [])"
    by (simp add: from_vless_url_def url_defs Let_def opt_str_def parse_qsl_def parse_field_def
        query_get_def)
  have s: "strip ''n'' = ''n''" by (simp add: strip_def isspace_def)
  have b: "snd (to_vless_url (vless_config JNull (JString ''h'') 1 [] ''tcp'' ''none'' [] [] [] [] [])
            (Line ''n''))
       = Inr ''vless://None@h:1?encryption=none&security=none&type=tcp#n''"
    by (simp add: to_vless_url_def vless_url_query_def vless_config_def query_param_def
        get_vless_name_def Let_def s str_int_def digit_char_def)
  have c: "from_vless_url example_lib ''vless://None@h:1?encryption=none&security=none&type=tcp#n''
       = Inr (vless_config (JString ''None'') (JString ''h'') 1 [] ''tcp'' ''none'' [] [] [] [] [])"
    by (simp add: from_vless_url_def url_defs Let_def opt_str_def parse_qsl_def parse_field_def
        query_get_def unquote_plus_def unquote_def)
  from a b c show ?thesis by simp
qed

lemma round_trip_bracketed_host:
  "from_vless_url example_lib ''vless://u@[::1]:1''
     = Inr (vless_config (JString ''u'') (JString ''::1'') 1 [] ''tcp'' ''none'' [] [] [] [] [])
   \<and> snd (to_vless_url (vless_config (JString ''u'') (JString ''::1'') 1 [] ''tcp'' ''none''
               [] [] [] [] []) (Line ''n''))
       = Inr ''vless://u@::1:1?encryption=none&security=none&type=tcp#n''
   \<and> from_vless_url example_lib ''vless://u@::1:1?encryption=none&security=none&type=tcp#n''
       = Inl (ValueError ''Port could not be cast to integer value'')"
proof -
  have a: "from_vless_url example_lib ''vless://u@[::1]:1''
     = Inr (vless_config (JString ''u'') (JString ''::1'') 1 [] ''tcp'' ''none'' [] [] [] [] [])"
    by (simp add: from_vless_url_def url_defs Let_def opt_str_def parse_qsl_def parse_field_def
        query_get_def check_bracketed_host_def startswith_def example_lib_def)
  have s: "strip ''n'' = ''n''" by (simp add: strip_def isspace_def)
  have "display_name (JString ''::1'') (Line ''n'') = ''n''"
    by (simp add: display_name_def s)
  then have b: "snd (to_vless_url (vless_config (JString ''u'') (JString ''::1'') 1 [] ''tcp'' ''none''
               [] [] [] [] []) (Line ''n''))
       = Inr ''vless://u@::1:1?encryption=none&security=none&type=tcp#n''"
    using to_vless_url_config[of "Line ''n''" "''u''" "''::1''" 1 "[]" "''tcp''"
        "''none''" "[]" "[]" "[]" "[]" "[]"]
    by (simp add: render_params_def str_int_def digit_char_def)
  have c: "from_vless_url example_lib ''vless://u@::1:1?encryption=none&security=none&type=tcp#n''
       = Inl (ValueError ''Port could not be cast to integer value'')"
    by (simp add: from_vless_url_def url_defs Let_def)
  from a b c show ?thesis by simp
qed


end
